theory Spec2Isabelle
  imports Complex_Main
begin

unbundle bit_operations_syntax

section \<open>Python strings and integers\<close>

text \<open>
  The program is \<^verbatim>\<open>app.py\<close>, an IPv4 subnet calculator built on Python's standard
  \<^verbatim>\<open>ipaddress\<close> module. A Python \<^verbatim>\<open>str\<close> is modelled as a \<open>string\<close> of 8-bit
  characters (code points below 256), a Python \<^verbatim>\<open>int\<close> as an \<open>int\<close>, and a prefix
  length, which the library keeps between 0 and 32, as a \<open>nat\<close>. An exception is the
  \<open>Inl\<close> side of a sum.
\<close>

datatype error = AddressValueError | NetmaskValueError | ValueError

text \<open>
  \<^verbatim>\<open>AddressValueError\<close> and \<^verbatim>\<open>NetmaskValueError\<close> are subclasses of \<^verbatim>\<open>ValueError\<close>:
  an \<^verbatim>\<open>except ValueError\<close> catches all three.
\<close>

definition isspace :: "char \<Rightarrow> bool" where
  \<comment> \<open>the code points below 256 that \<^verbatim>\<open>str.isspace\<close> accepts\<close>
  "isspace c = (let n = (of_char c :: nat)
                in (9 \<le> n \<and> n \<le> 13) \<or> (28 \<le> n \<and> n \<le> 32) \<or> n = 133 \<or> n = 160)"

definition strip :: "string \<Rightarrow> string" where
  "strip s = rev (dropWhile isspace (rev (dropWhile isspace s)))"

text \<open>
  \<^verbatim>\<open>s.split()\<close>: the maximal runs of non-whitespace characters. The first argument is
  the token being read, reversed.
\<close>

fun split_ws :: "string \<Rightarrow> string \<Rightarrow> string list" where
  "split_ws cur [] = (if cur = [] then [] else [rev cur])"
| "split_ws cur (c # cs) =
     (if isspace c then (if cur = [] then split_ws [] cs else rev cur # split_ws [] cs)
      else split_ws (c # cur) cs)"

definition split_whitespace :: "string \<Rightarrow> string list" where
  "split_whitespace s = split_ws [] s"

text \<open>\<^verbatim>\<open>s.split(sep)\<close> for a one-character separator: empty fields are kept.\<close>

fun split_sep :: "char \<Rightarrow> string \<Rightarrow> string list" where
  "split_sep sep [] = [[]]"
| "split_sep sep (c # cs) =
     (if c = sep then [] # split_sep sep cs
      else (case split_sep sep cs of [] \<Rightarrow> [[c]] | t # ts \<Rightarrow> (c # t) # ts))"

fun join :: "string \<Rightarrow> string list \<Rightarrow> string" where
  "join sep [] = []"
| "join sep [t] = t"
| "join sep (t # u # ts) = t @ sep @ join sep (u # ts)"

definition isdigit :: "char \<Rightarrow> bool" where
  "isdigit c = (48 \<le> (of_char c :: nat) \<and> (of_char c :: nat) \<le> 57)"

definition is_ascii_digits :: "string \<Rightarrow> bool" where
  \<comment> \<open>\<^verbatim>\<open>s.isascii() and s.isdigit()\<close>\<close>
  "is_ascii_digits s = (s \<noteq> [] \<and> list_all isdigit s)"

definition digits_value :: "string \<Rightarrow> nat" where
  "digits_value s = foldl (\<lambda>acc c. acc * 10 + (of_char c - 48)) 0 s"

definition int_max_str_digits :: nat where
  "int_max_str_digits = 4300"

definition int_of_digits :: "string \<Rightarrow> error + nat" where
  \<comment> \<open>\<^verbatim>\<open>int(s)\<close> for a string of ASCII digits; longer than the interpreter's limit it raises\<close>
  "int_of_digits s =
     (if length s > int_max_str_digits then Inl ValueError else Inr (digits_value s))"

fun underscores_ok :: "string \<Rightarrow> bool" where
  \<comment> \<open>digits, with single underscores between them\<close>
  "underscores_ok [] = False"
| "underscores_ok [c] = isdigit c"
| "underscores_ok (c # d # cs) =
     (isdigit c \<and> (if d = CHR ''_'' then underscores_ok cs else underscores_ok (d # cs)))"

definition py_int :: "string \<Rightarrow> error + int" where
  \<comment> \<open>\<^verbatim>\<open>int(s)\<close> for any string: surrounding whitespace, an optional sign, digits\<close>
  "py_int s =
     (let t = strip s;
          neg = (t \<noteq> [] \<and> hd t = CHR ''-'');
          body = (if t \<noteq> [] \<and> (hd t = CHR ''-'' \<or> hd t = CHR ''+'') then tl t else t)
      in if \<not> underscores_ok body then Inl ValueError
         else (case int_of_digits (filter (\<lambda>c. c \<noteq> CHR ''_'') body) of
                 Inl e \<Rightarrow> Inl e
               | Inr n \<Rightarrow> Inr (if neg then - int n else int n)))"

definition digit_char :: "nat \<Rightarrow> char" where
  "digit_char d = ''0123456789'' ! d"

fun str_nat :: "nat \<Rightarrow> string" where
  "str_nat n = (if n < 10 then [digit_char n]
                else str_nat (n div 10) @ [digit_char (n mod 10)])"

declare str_nat.simps [simp del]

definition str_int :: "int \<Rightarrow> string" where
  \<comment> \<open>\<^verbatim>\<open>str(i)\<close>\<close>
  "str_int i = (if i < 0 then CHR ''-'' # str_nat (nat (- i)) else str_nat (nat i))"

fun group_thousands :: "nat \<Rightarrow> string" where
  "group_thousands n =
     (if n < 1000 then str_nat n
      else group_thousands (n div 1000) @ '','' @
           (let r = str_nat (n mod 1000) in replicate (3 - length r) CHR ''0'' @ r))"

declare group_thousands.simps [simp del]

definition format_thousands :: "int \<Rightarrow> string" where
  \<comment> \<open>the format \<^verbatim>\<open>f"{i:,}"\<close>\<close>
  "format_thousands i =
     (if i < 0 then CHR ''-'' # group_thousands (nat (- i)) else group_thousands (nat i))"

fun bin_nat :: "nat \<Rightarrow> string" where
  "bin_nat n = (if n < 2 then [digit_char n]
                else bin_nat (n div 2) @ [digit_char (n mod 2)])"

declare bin_nat.simps [simp del]

definition format_08b :: "int \<Rightarrow> string" where
  \<comment> \<open>the format \<^verbatim>\<open>f"{b:08b}"\<close> of a byte\<close>
  "format_08b b = (let r = bin_nat (nat b) in replicate (8 - length r) CHR ''0'' @ r)"

fun map_err :: "('a \<Rightarrow> error + 'b) \<Rightarrow> 'a list \<Rightarrow> error + 'b list" where
  \<comment> \<open>a loop or \<^verbatim>\<open>map\<close> whose body may raise: the first exception ends it\<close>
  "map_err f [] = Inr []"
| "map_err f (x # xs) =
     (case f x of Inl e \<Rightarrow> Inl e
      | Inr y \<Rightarrow> (case map_err f xs of Inl e \<Rightarrow> Inl e | Inr ys \<Rightarrow> Inr (y # ys)))"

section \<open>The part of the \<^verbatim>\<open>ipaddress\<close> module the program calls\<close>

text \<open>
  After CPython 3.12's \<^verbatim>\<open>Lib/ipaddress.py\<close>. An \<^verbatim>\<open>IPv4Address\<close> is its integer
  \<^verbatim>\<open>_ip\<close>, which every constructor keeps between 0 and \<open>ALL_ONES\<close>; an
  \<^verbatim>\<open>IPv4Network\<close> holds its base address, its netmask and its prefix length. The
  netmask cache of the library is a memo table and does not change any result.
\<close>

record IPv4Network =
  network_address :: int
  netmask :: int
  prefixlen :: nat

definition ALL_ONES :: int where
  "ALL_ONES = 2 ^ 32 - 1"

definition check_int_address :: "int \<Rightarrow> error + int" where
  \<comment> \<open>\<^verbatim>\<open>IPv4Address(i)\<close> for an integer\<close>
  "check_int_address a =
     (if a < 0 then Inl AddressValueError
      else if a > ALL_ONES then Inl AddressValueError
      else Inr a)"

definition packed :: "int \<Rightarrow> int list" where
  \<comment> \<open>the four bytes of an address, most significant first\<close>
  "packed a = [a div 2 ^ 24 mod 256, a div 2 ^ 16 mod 256, a div 2 ^ 8 mod 256, a mod 256]"

definition string_from_ip_int :: "int \<Rightarrow> string" where
  \<comment> \<open>\<^verbatim>\<open>str\<close> of an address: dotted decimal\<close>
  "string_from_ip_int a = join ''.'' (map str_int (packed a))"

definition parse_octet :: "string \<Rightarrow> error + int" where
  "parse_octet octet_str =
     (if octet_str = [] then Inl ValueError
      else if \<not> is_ascii_digits octet_str then Inl ValueError
      else if length octet_str > 3 then Inl ValueError
      else if octet_str \<noteq> ''0'' \<and> hd octet_str = CHR ''0'' then Inl ValueError
      else (case int_of_digits octet_str of
              Inl e \<Rightarrow> Inl e
            | Inr octet_int \<Rightarrow>
                if octet_int > 255 then Inl ValueError else Inr (int octet_int)))"

definition from_bytes_big :: "int list \<Rightarrow> int" where
  "from_bytes_big bs = foldl (\<lambda>acc b. acc * 256 + b) 0 bs"

definition ip_int_from_string :: "string \<Rightarrow> error + int" where
  "ip_int_from_string ip_str =
     (if ip_str = [] then Inl AddressValueError
      else let octets = split_sep CHR ''.'' ip_str
           in if length octets \<noteq> 4 then Inl AddressValueError
              else (case map_err parse_octet octets of
                      Inl e \<Rightarrow> Inl AddressValueError
                    | Inr bs \<Rightarrow> Inr (from_bytes_big bs)))"

definition IPv4Address_str :: "string \<Rightarrow> error + int" where
  \<comment> \<open>\<^verbatim>\<open>IPv4Address(s)\<close> for a string\<close>
  "IPv4Address_str addr_str =
     (if CHR ''/'' \<in> set addr_str then Inl AddressValueError
      else ip_int_from_string addr_str)"

fun bit_length_nat :: "nat \<Rightarrow> nat" where
  "bit_length_nat n = (if n = 0 then 0 else Suc (bit_length_nat (n div 2)))"

declare bit_length_nat.simps [simp del]

definition bit_length :: "int \<Rightarrow> nat" where
  "bit_length i = bit_length_nat (nat \<bar>i\<bar>)"

definition count_righthand_zero_bits :: "int \<Rightarrow> nat \<Rightarrow> nat" where
  "count_righthand_zero_bits number bits =
     (if number = 0 then bits
      else min bits (bit_length (NOT number AND (number - 1))))"

definition ip_int_from_prefix :: "nat \<Rightarrow> int" where
  "ip_int_from_prefix p = ALL_ONES XOR drop_bit p ALL_ONES"

definition prefix_from_ip_int :: "int \<Rightarrow> error + nat" where
  "prefix_from_ip_int ip_int =
     (let trailing_zeroes = count_righthand_zero_bits ip_int 32;
          p = 32 - trailing_zeroes;
          leading_ones = drop_bit trailing_zeroes ip_int;
          all_ones = push_bit p 1 - 1
      in if leading_ones \<noteq> all_ones then Inl ValueError else Inr p)"

definition prefix_from_prefix_string :: "string \<Rightarrow> error + nat" where
  "prefix_from_prefix_string prefixlen_str =
     (if \<not> is_ascii_digits prefixlen_str then Inl NetmaskValueError
      else (case int_of_digits prefixlen_str of
              Inl e \<Rightarrow> Inl NetmaskValueError
            | Inr p \<Rightarrow> if \<not> p \<le> 32 then Inl NetmaskValueError else Inr p))"

definition prefix_from_ip_string :: "string \<Rightarrow> error + nat" where
  \<comment> \<open>a dotted netmask, or else a dotted hostmask\<close>
  "prefix_from_ip_string ip_str =
     (case ip_int_from_string ip_str of
        Inl e \<Rightarrow> Inl NetmaskValueError
      | Inr ip_int \<Rightarrow>
          (case prefix_from_ip_int ip_int of
             Inr p \<Rightarrow> Inr p
           | Inl e \<Rightarrow>
               (case prefix_from_ip_int (ip_int XOR ALL_ONES) of
                  Inr p \<Rightarrow> Inr p
                | Inl e \<Rightarrow> Inl NetmaskValueError)))"

definition make_netmask_int :: "int \<Rightarrow> error + int \<times> nat" where
  \<comment> \<open>\<^verbatim>\<open>_make_netmask\<close> of an integer prefix length\<close>
  "make_netmask_int arg =
     (if \<not> (0 \<le> arg \<and> arg \<le> 32) then Inl NetmaskValueError
      else (case check_int_address (ip_int_from_prefix (nat arg)) of
              Inl e \<Rightarrow> Inl e
            | Inr m \<Rightarrow> Inr (m, nat arg)))"

definition make_netmask_str :: "string \<Rightarrow> error + int \<times> nat" where
  \<comment> \<open>\<^verbatim>\<open>_make_netmask\<close> of a string: a prefix length, or else a dotted mask\<close>
  "make_netmask_str arg =
     (case (case prefix_from_prefix_string arg of
              Inr p \<Rightarrow> Inr p
            | Inl e \<Rightarrow> prefix_from_ip_string arg) of
        Inl e \<Rightarrow> Inl e
      | Inr p \<Rightarrow>
          (case check_int_address (ip_int_from_prefix p) of
             Inl e \<Rightarrow> Inl e
           | Inr m \<Rightarrow> Inr (m, p)))"

definition split_optional_netmask :: "string \<Rightarrow> error + string list" where
  "split_optional_netmask address =
     (let addr = split_sep CHR ''/'' address
      in if length addr > 2 then Inl AddressValueError else Inr addr)"

definition make_network :: "int \<Rightarrow> int \<times> nat \<Rightarrow> bool \<Rightarrow> error + IPv4Network" where
  \<comment> \<open>the end of \<^verbatim>\<open>IPv4Network.__init__\<close>: host bits are refused or cleared\<close>
  "make_network a mp strict =
     (let m = fst mp; p = snd mp
      in if a AND m \<noteq> a then
           (if strict then Inl ValueError
            else (case check_int_address (a AND m) of
                    Inl e \<Rightarrow> Inl e
                  | Inr b \<Rightarrow> Inr \<lparr>network_address = b, netmask = m, prefixlen = p\<rparr>))
         else Inr \<lparr>network_address = a, netmask = m, prefixlen = p\<rparr>)"

definition IPv4Network_str :: "string \<Rightarrow> bool \<Rightarrow> error + IPv4Network" where
  \<comment> \<open>\<^verbatim>\<open>IPv4Network(s, strict)\<close> for a string\<close>
  "IPv4Network_str address strict =
     (case split_optional_netmask address of
        Inl e \<Rightarrow> Inl e
      | Inr parts \<Rightarrow>
          (case IPv4Address_str (hd parts) of
             Inl e \<Rightarrow> Inl e
           | Inr a \<Rightarrow>
               (case (if length parts > 1 then make_netmask_str (parts ! 1)
                      else make_netmask_int 32) of
                  Inl e \<Rightarrow> Inl e
                | Inr mp \<Rightarrow> make_network a mp strict)))"

definition IPv4Network_tuple :: "int \<Rightarrow> int \<Rightarrow> error + IPv4Network" where
  \<comment> \<open>\<^verbatim>\<open>IPv4Network((a, p))\<close> for a pair of integers; strict\<close>
  "IPv4Network_tuple addr prefix =
     (case check_int_address addr of
        Inl e \<Rightarrow> Inl e
      | Inr a \<Rightarrow>
          (case make_netmask_int prefix of
             Inl e \<Rightarrow> Inl e
           | Inr mp \<Rightarrow> make_network a mp True))"

definition hostmask :: "IPv4Network \<Rightarrow> int" where
  "hostmask n = netmask n XOR ALL_ONES"

definition broadcast_address :: "IPv4Network \<Rightarrow> int" where
  "broadcast_address n = network_address n OR hostmask n"

definition num_addresses :: "IPv4Network \<Rightarrow> int" where
  "num_addresses n = broadcast_address n - network_address n + 1"

definition network_eq :: "IPv4Network \<Rightarrow> IPv4Network \<Rightarrow> bool" where
  \<comment> \<open>\<^verbatim>\<open>==\<close> on networks\<close>
  "network_eq a b = (network_address a = network_address b \<and> netmask a = netmask b)"

definition str_network :: "IPv4Network \<Rightarrow> string" where
  "str_network n = string_from_ip_int (network_address n) @ ''/'' @ str_nat (prefixlen n)"

definition supernet :: "IPv4Network \<Rightarrow> error + IPv4Network" where
  \<comment> \<open>\<^verbatim>\<open>n.supernet()\<close>, one bit wider\<close>
  "supernet n =
     (if prefixlen n = 0 then Inr n
      else let new_prefixlen = int (prefixlen n) - 1
           in if new_prefixlen < 0 then Inl ValueError
              else IPv4Network_tuple (network_address n AND push_bit 1 (netmask n))
                                     new_prefixlen)"

definition address_in :: "int \<Rightarrow> IPv4Network \<Rightarrow> bool" where
  \<comment> \<open>\<^verbatim>\<open>address in network\<close>\<close>
  "address_in a n = (a AND netmask n = network_address n)"

definition mk_net :: "int \<Rightarrow> nat \<Rightarrow> IPv4Network" where
  \<comment> \<open>a network constant of the library, from its base address and prefix length\<close>
  "mk_net a p = \<lparr>network_address = a, netmask = ip_int_from_prefix p, prefixlen = p\<rparr>"

definition private_networks :: "IPv4Network list" where
  "private_networks =
     [mk_net 0 8, mk_net 167772160 8, mk_net 2130706432 8, mk_net 2851995648 16,
      mk_net 2886729728 12, mk_net 3221225472 24, mk_net 3221225642 31,
      mk_net 3221225984 24, mk_net 3232235520 16, mk_net 3323068416 15,
      mk_net 3325256704 24, mk_net 3405803776 24, mk_net 4026531840 4,
      mk_net 4294967295 32]"

definition private_networks_exceptions :: "IPv4Network list" where
  "private_networks_exceptions = [mk_net 3221225481 32, mk_net 3221225482 32]"

definition is_private :: "IPv4Network \<Rightarrow> bool" where
  "is_private n =
     (list_ex (\<lambda>priv. address_in (network_address n) priv \<and>
                      address_in (broadcast_address n) priv) private_networks \<and>
      list_all (\<lambda>ex. \<not> address_in (network_address n) ex \<and>
                      \<not> address_in (broadcast_address n) ex) private_networks_exceptions)"

section \<open>The calculator\<close>

definition ITEMS_PER_PAGE :: int where
  "ITEMS_PER_PAGE = 20"

definition PAGES_BEFORE_AFTER :: int where
  "PAGES_BEFORE_AFTER = 10"

text \<open>
  \<^verbatim>\<open>parse_input\<close>: CIDR notation, or an address and a mask separated by whitespace, or
  a single address. \<open>None\<close> is Python's \<^verbatim>\<open>None\<close>. The outer \<^verbatim>\<open>try\<close> turns every
  exception of the library into \<open>None\<close>.
\<close>

definition parse_input :: "string \<Rightarrow> IPv4Network option" where
  "parse_input input_str0 =
     (if input_str0 = [] then None
      else let input_str = strip input_str0
           in if CHR ''/'' \<in> set input_str then
                (case IPv4Network_str input_str False of Inl e \<Rightarrow> None | Inr n \<Rightarrow> Some n)
              else let parts = split_whitespace input_str
                   in if length parts = 2 then
                        (let ip_part = strip (parts ! 0);
                             mask_part = strip (parts ! 1)
                         in case IPv4Network_str (ip_part @ ''/'' @ mask_part) False of
                              Inr n \<Rightarrow> Some n
                            | Inl e \<Rightarrow>
                                (case IPv4Address_str mask_part of
                                   Inl e \<Rightarrow> None
                                 | Inr wildcard \<Rightarrow>
                                     (let subnet_int = 0xFFFFFFFF - wildcard
                                      in case check_int_address subnet_int of
                                           Inl e \<Rightarrow> None
                                         | Inr subnet_mask \<Rightarrow>
                                             (case IPv4Network_str
                                                     (ip_part @ ''/'' @
                                                      string_from_ip_int subnet_mask) False of
                                                Inl e \<Rightarrow> None
                                              | Inr n \<Rightarrow> Some n))))
                      else (case IPv4Network_str (input_str @ ''/32'') False of
                              Inl e \<Rightarrow> None
                            | Inr n \<Rightarrow> Some n))"

text \<open>
  \<^verbatim>\<open>_get_supernet_to_prefix\<close>: the loop widens by one bit while the prefix is longer
  than the target, and stops at a \<^verbatim>\<open>ValueError\<close> of \<^verbatim>\<open>supernet\<close>.
\<close>

function get_supernet_to_prefix :: "IPv4Network \<Rightarrow> nat \<Rightarrow> IPv4Network" where
  "get_supernet_to_prefix current target_prefix =
     (if prefixlen current > target_prefix then
        (case supernet current of
           Inl e \<Rightarrow> current
         | Inr c \<Rightarrow> get_supernet_to_prefix c target_prefix)
      else current)"
  by pat_completeness auto
termination
  by (relation "measure (\<lambda>(current, target_prefix). prefixlen current)")
     (auto simp: supernet_def IPv4Network_tuple_def make_netmask_int_def make_network_def
        Let_def split: if_splits sum.splits)

declare get_supernet_to_prefix.simps [simp del]

definition get_parent_network :: "IPv4Network \<Rightarrow> error + IPv4Network" where
  "get_parent_network net =
     (let first = packed (network_address net) ! 0
      in if prefixlen net > 24 then Inr (get_supernet_to_prefix net 24)
         else if prefixlen net > 16 then Inr (get_supernet_to_prefix net 16)
         else if prefixlen net > 8 then Inr (get_supernet_to_prefix net 8)
         else IPv4Network_str (str_int first @ ''.0.0.0/8'') True)"

definition get_host_range :: "IPv4Network \<Rightarrow> error + int \<times> int" where
  "get_host_range net =
     (if num_addresses net > 2 then
        (case check_int_address (network_address net + 1) of
           Inl e \<Rightarrow> Inl e
         | Inr lo \<Rightarrow>
             (case check_int_address (broadcast_address net - 1) of
                Inl e \<Rightarrow> Inl e
              | Inr hi \<Rightarrow> Inr (lo, hi)))
      else Inr (network_address net, network_address net))"

definition wildcard_network :: "IPv4Network \<Rightarrow> string" where
  "wildcard_network net =
     (let octets = split_sep CHR ''.'' (string_from_ip_int (network_address net));
          mask_octets = split_sep CHR ''.'' (string_from_ip_int (netmask net))
      in join ''.'' (map (\<lambda>(oct, m). if m = ''255'' then oct else ''*'')
                         (zip octets mask_octets)))"

text \<open>An entry of the list \<^verbatim>\<open>all_nets\<close>; the fields are the keys of the dictionary.\<close>

record subnet_entry =
  e_network :: string
  e_range :: string
  e_broadcast :: string
  is_current :: bool
  e_index :: int
  e_page :: int

text \<open>The body of the loop over the sibling indices of the window.\<close>

definition sibling_entry :: "IPv4Network \<Rightarrow> IPv4Network \<Rightarrow> int \<Rightarrow> int \<Rightarrow> error + subnet_entry" where
  "sibling_entry net parent subnet_size idx =
     (let network_int = network_address parent + idx * subnet_size
      in case check_int_address network_int of
           Inl e \<Rightarrow> Inl e
         | Inr subnet_addr \<Rightarrow>
             (case IPv4Network_str
                     (string_from_ip_int subnet_addr @ ''/'' @ str_nat (prefixlen net)) False of
                Inl e \<Rightarrow> Inl e
              | Inr subnet \<Rightarrow>
                  (case get_host_range subnet of
                     Inl e \<Rightarrow> Inl e
                   | Inr (sub_min, sub_max) \<Rightarrow>
                       (let subnet_page = idx div ITEMS_PER_PAGE + 1
                        in Inr \<lparr>e_network = string_from_ip_int (network_address subnet),
                                e_range = string_from_ip_int sub_min @ '' - '' @
                                          string_from_ip_int sub_max,
                                e_broadcast = string_from_ip_int (broadcast_address subnet),
                                is_current = network_eq subnet net,
                                e_index = idx,
                                e_page = subnet_page\<rparr>))))"

text \<open>
  The local variables of \<^verbatim>\<open>format_ipcalc\<close> after its \<^verbatim>\<open>try\<close> block. When the loop
  raises, the handler resets \<^verbatim>\<open>show_subnet_list\<close> and \<^verbatim>\<open>all_nets\<close> only: the page
  variables keep what the block gave them before the loop.
\<close>

record window_vars =
  w_show_subnet_list :: bool
  w_all_nets :: "subnet_entry list"
  w_current_index :: int
  w_current_page :: int
  w_start_page :: int
  w_end_page :: int
  w_total_subnets :: int
  w_total_pages :: int

definition subnet_window :: "IPv4Network \<Rightarrow> IPv4Network \<Rightarrow> string option \<Rightarrow> window_vars" where
  "subnet_window net parent requested_page =
     (let show_subnet_list = prefixlen parent < prefixlen net
      in if show_subnet_list then
           (let prefix_diff = int (prefixlen net) - int (prefixlen parent);
                total_subnets = (if prefix_diff > 0 then 2 ^ nat prefix_diff else 0);
                total_pages = max 1 ((total_subnets + ITEMS_PER_PAGE - 1) div ITEMS_PER_PAGE);
                subnet_size = 2 ^ (32 - prefixlen net);
                current_index = (network_address net - network_address parent) div subnet_size;
                center_page =
                  (case requested_page of
                     None \<Rightarrow> current_index div ITEMS_PER_PAGE + 1
                   | Some page \<Rightarrow>
                       if page \<noteq> [] then
                         (case py_int page of
                            Inr i \<Rightarrow> max 1 (min i total_pages)
                          | Inl e \<Rightarrow> current_index div ITEMS_PER_PAGE + 1)
                       else current_index div ITEMS_PER_PAGE + 1);
                start_page = max 1 (center_page - PAGES_BEFORE_AFTER);
                end_page = min total_pages (center_page + PAGES_BEFORE_AFTER);
                current_page = center_page;
                start_index = (start_page - 1) * ITEMS_PER_PAGE;
                end_index = min total_subnets (end_page * ITEMS_PER_PAGE)
            in case map_err (sibling_entry net parent subnet_size) [start_index..end_index - 1] of
                 Inr nets \<Rightarrow>
                   \<lparr>w_show_subnet_list = True, w_all_nets = nets,
                    w_current_index = current_index, w_current_page = current_page,
                    w_start_page = start_page, w_end_page = end_page,
                    w_total_subnets = total_subnets, w_total_pages = total_pages\<rparr>
               | Inl e \<Rightarrow>
                   \<lparr>w_show_subnet_list = False, w_all_nets = [],
                    w_current_index = current_index, w_current_page = current_page,
                    w_start_page = start_page, w_end_page = end_page,
                    w_total_subnets = total_subnets, w_total_pages = total_pages\<rparr>)
         else \<lparr>w_show_subnet_list = False, w_all_nets = [],
               w_current_index = 0, w_current_page = 1,
               w_start_page = 1, w_end_page = 1,
               w_total_subnets = 0, w_total_pages = 1\<rparr>)"

text \<open>The dictionary that \<^verbatim>\<open>format_ipcalc\<close> returns; the fields are its keys.\<close>

record ipcalc_result =
  network :: string
  host_min :: string
  host_max :: string
  broadcast :: string
  hosts_usable :: string
  netmask_str :: string
  wildcard_str :: string
  binary_mask :: string
  ip_class :: string
  cidr_full :: string
  ip_type :: string
  binary_id :: string
  in_addr :: string
  all_nets :: "subnet_entry list"
  parent_desc :: string
  show_subnet_list :: bool
  vertical :: string
  items_per_page :: int
  total_pages :: int
  current_page :: int
  total_subnets :: int
  window_start_page :: int
  window_end_page :: int
  current_index :: int

definition newline :: string where
  "newline = [CHR 0x0A]"

text \<open>
  \<^verbatim>\<open>format_ipcalc\<close>. The argument \<open>requested_page\<close> is \<open>None\<close> when it is left out and
  a string otherwise, as the route passes the form field. An exception that the function
  does not catch is the \<open>Inl\<close> result.
\<close>

definition format_ipcalc :: "IPv4Network option \<Rightarrow> string option \<Rightarrow> error + ipcalc_result option" where
  "format_ipcalc net_opt requested_page =
     (case net_opt of
        None \<Rightarrow> Inr None
      | Some net \<Rightarrow>
          (let hosts_total = num_addresses net;
               hosts_usable_n = max 0 (hosts_total - 2)
           in case get_host_range net of
                Inl e \<Rightarrow> Inl e
              | Inr (host_min_a, host_max_a) \<Rightarrow>
                  (case check_int_address (netmask net XOR 0xFFFFFFFF) of
                     Inl e \<Rightarrow> Inl e
                   | Inr wildcard \<Rightarrow>
                       (let binary_mask_s = join ''.'' (map format_08b (packed (netmask net)));
                            first_octet = packed (network_address net) ! 0;
                            ip_class_s =
                              (if first_octet \<le> 127 then ''A''
                               else if first_octet \<le> 191 then ''B''
                               else if first_octet \<le> 223 then ''C''
                               else if first_octet \<le> 239 then ''D'' else ''E'');
                            ip_type_s = (if is_private net then ''Private'' else ''Public'');
                            binary_id_s =
                              join ''.'' (map format_08b (packed (network_address net)));
                            rev_octets =
                              join ''.'' (map str_int (rev (packed (network_address net))));
                            in_addr_s = rev_octets @ ''.in-addr.arpa''
                        in case get_parent_network net of
                             Inl e \<Rightarrow> Inl e
                           | Inr parent \<Rightarrow>
                               (let w = subnet_window net parent requested_page;
                                    nets =
                                      (if \<not> w_show_subnet_list w then
                                         [\<lparr>e_network = string_from_ip_int (network_address net),
                                           e_range = string_from_ip_int host_min_a @ '' - '' @
                                                     string_from_ip_int host_max_a,
                                           e_broadcast =
                                             string_from_ip_int (broadcast_address net),
                                           is_current = True, e_index = 0, e_page = 1\<rparr>]
                                       else w_all_nets w);
                                    count = (if w_show_subnet_list w then w_total_subnets w
                                             else int (length nets));
                                    parent_desc_s =
                                      (if count > 1 then
                                         ''All '' @ format_thousands count @ '' Possible /'' @
                                         str_nat (prefixlen net) @ '' Networks in '' @
                                         wildcard_network
                                           (if w_show_subnet_list w then parent else net)
                                       else ''Network: '' @ str_network net);
                                    vertical_s =
                                      ''Network Address: '' @
                                        string_from_ip_int (network_address net) @ newline @
                                      ''Binary ID: '' @ binary_id_s @ newline @
                                      ''Subnet Mask: '' @
                                        string_from_ip_int (netmask net) @ newline @
                                      ''Binary Subnet Mask: '' @ binary_mask_s @ newline @
                                      ''Wildcard Mask: '' @
                                        string_from_ip_int wildcard @ newline @
                                      ''Broadcast Address: '' @
                                        string_from_ip_int (broadcast_address net) @ newline @
                                      ''CIDR Notation: '' @
                                        string_from_ip_int (network_address net) @ ''/'' @
                                        str_nat (prefixlen net) @ newline @
                                      ''Usable Host IP Range: '' @
                                        string_from_ip_int host_min_a @ '' - '' @
                                        string_from_ip_int host_max_a @ newline @
                                      ''Number of Usable Hosts: '' @
                                        format_thousands hosts_usable_n @ newline @
                                      ''IP Class: '' @ ip_class_s @ newline @
                                      ''IP Type: '' @ ip_type_s @ newline @
                                      ''in-addr.arpa: '' @ in_addr_s
                                in Inr (Some
                                     \<lparr>network = string_from_ip_int (network_address net),
                                      host_min = string_from_ip_int host_min_a,
                                      host_max = string_from_ip_int host_max_a,
                                      broadcast = string_from_ip_int (broadcast_address net),
                                      hosts_usable = format_thousands hosts_usable_n,
                                      netmask_str = string_from_ip_int (netmask net),
                                      wildcard_str = string_from_ip_int wildcard,
                                      binary_mask = binary_mask_s,
                                      ip_class = ip_class_s,
                                      cidr_full = string_from_ip_int (network_address net) @
                                                  ''/'' @ str_nat (prefixlen net),
                                      ip_type = ip_type_s,
                                      binary_id = binary_id_s,
                                      in_addr = in_addr_s,
                                      all_nets = nets,
                                      parent_desc = parent_desc_s,
                                      show_subnet_list = w_show_subnet_list w,
                                      vertical = vertical_s,
                                      items_per_page = ITEMS_PER_PAGE,
                                      total_pages = w_total_pages w,
                                      current_page = w_current_page w,
                                      total_subnets =
                                        (if w_show_subnet_list w then w_total_subnets w
                                         else int (length nets)),
                                      window_start_page =
                                        (if w_show_subnet_list w then w_start_page w else 1),
                                      window_end_page =
                                        (if w_show_subnet_list w then w_end_page w else 1),
                                      current_index =
                                        (if w_show_subnet_list w then w_current_index w
                                         else 0)\<rparr>))))))"

text \<open>The networks the library can build: a base address with no host bit set.\<close>

definition wf_network :: "IPv4Network \<Rightarrow> bool" where
  "wf_network n =
     (prefixlen n \<le> 32 \<and> netmask n = ip_int_from_prefix (prefixlen n) \<and>
      0 \<le> network_address n \<and> network_address n \<le> ALL_ONES \<and>
      network_address n AND netmask n = network_address n)"

text \<open>The prefix length that \<^verbatim>\<open>get_parent_network\<close> widens to, by its chain of tests.\<close>

definition parent_prefix :: "nat \<Rightarrow> nat" where
  "parent_prefix p = (if p > 24 then 24 else if p > 16 then 16 else 8)"

text \<open>
  The entry the specification describes for the sibling with index \<open>i\<close>: the network
  of the subject's prefix length at \<open>parent.address + i * subnetSize\<close>, with its host
  range, its broadcast address, its page, and the flag that marks the subject itself.
\<close>

definition spec_entry :: "IPv4Network \<Rightarrow> IPv4Network \<Rightarrow> int \<Rightarrow> subnet_entry" where
  "spec_entry net parent i =
     (let sub = mk_net (network_address parent + i * 2 ^ (32 - prefixlen net)) (prefixlen net);
          lo = (if num_addresses sub > 2 then network_address sub + 1 else network_address sub);
          hi = (if num_addresses sub > 2 then broadcast_address sub - 1 else network_address sub)
      in \<lparr>e_network = string_from_ip_int (network_address sub),
          e_range = string_from_ip_int lo @ '' - '' @ string_from_ip_int hi,
          e_broadcast = string_from_ip_int (broadcast_address sub),
          is_current = (network_address sub = network_address net \<and>
                        prefixlen sub = prefixlen net),
          e_index = i,
          e_page = i div 20 + 1\<rparr>)"

text \<open>
  \<open>supernet_at parent net t\<close>: the network \<open>parent\<close> has prefix length \<open>t\<close>, no host
  bit below it, and every address of \<open>net\<close> between its base and its broadcast address.
\<close>

definition supernet_at :: "IPv4Network \<Rightarrow> IPv4Network \<Rightarrow> nat \<Rightarrow> bool" where
  "supernet_at parent net t =
     (wf_network parent \<and> prefixlen parent = t \<and>
      network_address parent \<le> network_address net \<and>
      broadcast_address net \<le> broadcast_address parent)"

section \<open>Address arithmetic\<close>

lemma pow_diff_push_bit: "j \<le> n \<Longrightarrow> (2::int) ^ n - 2 ^ j = push_bit j (mask (n - j))"
  by (simp add: push_bit_eq_mult mask_eq_exp_minus_1 algebra_simps flip: power_add)

lemma and_pow_diff:
  fixes a :: int
  assumes "0 \<le> a" "a < 2 ^ n" "j \<le> n"
  shows "a AND (2 ^ n - 2 ^ j) = a - a mod 2 ^ j"
proof -
  have a: "a = take_bit n a" using assms by (simp add: take_bit_int_eq_self)
  have b: "i < n" if "bit a i" for i
    using a that by (metis bit_take_bit_iff)
  have "a AND push_bit j (mask (n - j)) = push_bit j (drop_bit j a)"
    by (rule bit_eqI) (use assms(3) in \<open>auto simp: bit_simps dest: b\<close>)
  also have "\<dots> = a - a mod 2 ^ j"
    by (simp add: push_bit_eq_mult drop_bit_eq_div minus_mod_eq_mult_div)
  finally show ?thesis using pow_diff_push_bit [OF assms(3)] by simp
qed

lemma ip_int_from_prefix_eq: "p \<le> 32 \<Longrightarrow> ip_int_from_prefix p = 2 ^ 32 - 2 ^ (32 - p)"
proof -
  assume p: "p \<le> 32"
  have "(mask 32 :: int) XOR drop_bit p (mask 32) = push_bit (32 - p) (mask (32 - (32 - p)))"
    by (rule bit_eqI) (use p in \<open>auto simp: bit_simps\<close>)
  also have "\<dots> = 2 ^ 32 - 2 ^ (32 - p)"
    by (subst pow_diff_push_bit) simp_all
  finally show ?thesis
    by (simp add: ip_int_from_prefix_def ALL_ONES_def mask_eq_exp_minus_1)
qed

lemma hostmask_eq: "k \<le> 32 \<Longrightarrow> (2 ^ 32 - 2 ^ k) XOR ALL_ONES = (2 ^ k - 1 :: int)"
proof -
  assume k: "k \<le> 32"
  have e: "(2::int) ^ 32 - 2 ^ k = push_bit k (mask (32 - k))"
    using k by (rule pow_diff_push_bit)
  have a1: "ALL_ONES = mask 32"
    by (simp add: ALL_ONES_def mask_eq_exp_minus_1)
  have "(2 ^ 32 - 2 ^ k) XOR ALL_ONES = push_bit k (mask (32 - k)) XOR (mask 32 :: int)"
    by (simp only: e a1)
  also have "\<dots> = mask k"
    by (rule bit_eqI) (use k in \<open>auto simp: bit_simps\<close>)
  finally show ?thesis
    by (simp only: mask_eq_exp_minus_1)
qed

lemma or_low_ones:
  fixes a :: int
  assumes "a mod 2 ^ k = 0"
  shows "a OR (2 ^ k - 1) = a + 2 ^ k - 1"
proof -
  have "a AND mask k = 0"
    using assms by (simp add: take_bit_eq_mod flip: take_bit_eq_mask)
  then have "a + mask k = a OR mask k"
    by (rule disjunctive_add_eq_or)
  then show ?thesis by (simp add: mask_eq_exp_minus_1)
qed

lemma ip_int_from_prefix_range: "p \<le> 32 \<Longrightarrow> 0 \<le> ip_int_from_prefix p \<and> ip_int_from_prefix p \<le> ALL_ONES"
proof -
  assume p: "p \<le> 32"
  have "(1::int) \<le> 2 ^ (32 - p)" by simp
  moreover have "(2::int) ^ (32 - p) \<le> 2 ^ 32"
    by (rule power_increasing) simp_all
  ultimately show ?thesis using p by (simp add: ip_int_from_prefix_eq ALL_ONES_def)
qed

lemma ip_int_from_prefix_inj:
  assumes "p \<le> 32" "q \<le> 32" "ip_int_from_prefix p = ip_int_from_prefix q"
  shows "p = q"
proof -
  have "(2::int) ^ (32 - p) = 2 ^ (32 - q)"
    using assms by (simp add: ip_int_from_prefix_eq)
  then have "32 - p = 32 - q" by simp
  then show ?thesis using assms by simp
qed

lemma and_netmask:
  assumes "0 \<le> a" "a \<le> ALL_ONES" "p \<le> 32"
  shows "a AND ip_int_from_prefix p = a - a mod 2 ^ (32 - p)"
  using and_pow_diff [of a 32 "32 - p"] assms
  by (simp add: ip_int_from_prefix_eq ALL_ONES_def)

lemma aligned_top:
  fixes a :: int
  assumes "0 \<le> a" "a < 2 ^ n" "k \<le> n" "a mod 2 ^ k = 0"
  shows "a + 2 ^ k \<le> 2 ^ n"
proof -
  have d: "(2::int) ^ n = 2 ^ k * 2 ^ (n - k)"
    using assms(3) by (simp flip: power_add)
  from assms(4) obtain q where q: "a = 2 ^ k * q" by (auto simp: mod_eq_0_iff_dvd)
  have "q < 2 ^ (n - k)"
    using assms(2) unfolding q d by simp
  then have "q + 1 \<le> 2 ^ (n - k)" by simp
  then have "2 ^ k * (q + 1) \<le> (2::int) ^ k * 2 ^ (n - k)"
    by (rule mult_left_mono) simp
  then show ?thesis unfolding q d by (simp add: algebra_simps)
qed

lemma wf_network_iff:
  "wf_network n \<longleftrightarrow>
     prefixlen n \<le> 32 \<and> netmask n = 2 ^ 32 - 2 ^ (32 - prefixlen n) \<and>
     0 \<le> network_address n \<and> network_address n < 2 ^ 32 \<and>
     network_address n mod 2 ^ (32 - prefixlen n) = 0"
proof (cases "prefixlen n \<le> 32 \<and> 0 \<le> network_address n \<and> network_address n \<le> ALL_ONES")
  case True
  then show ?thesis
    using and_netmask [of "network_address n" "prefixlen n"]
    by (auto simp: wf_network_def ip_int_from_prefix_eq ALL_ONES_def)
next
  case False
  then show ?thesis by (auto simp: wf_network_def ALL_ONES_def)
qed

lemma wf_hostmask: "wf_network n \<Longrightarrow> hostmask n = 2 ^ (32 - prefixlen n) - 1"
  using hostmask_eq [of "32 - prefixlen n"] by (simp add: wf_network_iff hostmask_def)

lemma wf_broadcast:
  "wf_network n \<Longrightarrow> broadcast_address n = network_address n + 2 ^ (32 - prefixlen n) - 1"
  by (simp add: broadcast_address_def wf_hostmask or_low_ones wf_network_iff)

lemma wf_num_addresses: "wf_network n \<Longrightarrow> num_addresses n = 2 ^ (32 - prefixlen n)"
  by (simp add: num_addresses_def wf_broadcast)

lemma wf_broadcast_le: "wf_network n \<Longrightarrow> broadcast_address n \<le> ALL_ONES"
  using aligned_top [of "network_address n" 32 "32 - prefixlen n"]
  by (simp add: wf_broadcast wf_network_iff ALL_ONES_def)

lemma num_addresses_gt2: "wf_network n \<Longrightarrow> num_addresses n > 2 \<longleftrightarrow> prefixlen n \<le> 30"
proof -
  assume w: "wf_network n"
  have "(2::int) ^ 1 < 2 ^ (32 - prefixlen n) \<longleftrightarrow> 1 < 32 - prefixlen n"
    by (rule power_strict_increasing_iff) simp
  then show ?thesis using w by (auto simp: wf_num_addresses)
qed

lemma get_host_range_wf:
  assumes "wf_network n"
  shows "get_host_range n =
     (if prefixlen n \<le> 30 then Inr (network_address n + 1, broadcast_address n - 1)
      else Inr (network_address n, network_address n))"
proof (cases "prefixlen n \<le> 30")
  case True
  then have "2 < num_addresses n" using assms by (simp add: num_addresses_gt2)
  moreover have "network_address n + 1 \<le> ALL_ONES" "0 \<le> network_address n"
    "0 \<le> broadcast_address n - 1" "broadcast_address n - 1 \<le> ALL_ONES"
    using assms wf_broadcast_le [OF assms] \<open>2 < num_addresses n\<close>
    by (auto simp: wf_network_iff num_addresses_def)
  ultimately show ?thesis using True
    by (simp add: get_host_range_def check_int_address_def)
next
  case False
  then show ?thesis using assms by (simp add: get_host_range_def num_addresses_gt2)
qed

section \<open>Decimal strings\<close>

lemma digit_cases:
  "d < 10 \<Longrightarrow> d = 0 \<or> d = 1 \<or> d = 2 \<or> d = 3 \<or> d = 4 \<or> d = 5 \<or> d = 6 \<or> d = 7 \<or> d = 8 \<or> d = (9::nat)"
  by arith

lemma of_char_digit_char: "d < 10 \<Longrightarrow> of_char (digit_char d) = 48 + d"
  by (drule digit_cases) (auto simp: digit_char_def)

lemma isdigit_char_of: "d < 10 \<Longrightarrow> isdigit (digit_char d)"
  by (simp add: isdigit_def of_char_digit_char)

lemma str_nat_isdigit: "c \<in> set (str_nat n) \<Longrightarrow> isdigit c"
proof (induction n rule: str_nat.induct)
  case (1 n)
  show ?case
  proof (cases "n < 10")
    case True
    with "1.prems" show ?thesis
      by (simp add: str_nat.simps [of n] isdigit_char_of)
  next
    case False
    with "1.prems" "1.IH" show ?thesis
      by (auto simp: str_nat.simps [of n] isdigit_char_of)
  qed
qed

lemma str_nat_nonempty: "str_nat n \<noteq> []"
  by (simp add: str_nat.simps [of n])

lemma digits_value_snoc:
  "digits_value (xs @ [c]) = digits_value xs * 10 + (of_char c - 48)"
  by (simp add: digits_value_def)

lemma digits_value_str_nat: "digits_value (str_nat n) = n"
proof (induction n rule: str_nat.induct)
  case (1 n)
  show ?case
  proof (cases "n < 10")
    case True
    then show ?thesis
      by (simp add: str_nat.simps [of n] digits_value_def of_char_digit_char)
  next
    case False
    with "1.IH" show ?thesis
      by (simp add: str_nat.simps [of n] digits_value_snoc of_char_digit_char)
  qed
qed

lemma hd_str_nat: "0 < n \<Longrightarrow> hd (str_nat n) \<noteq> CHR ''0''"
proof (induction n rule: str_nat.induct)
  case (1 n)
  show ?case
  proof (cases "n < 10")
    case True
    with "1.prems" have "of_char (digit_char n) \<noteq> (of_char CHR ''0'' :: nat)"
      by (simp add: of_char_digit_char)
    then have "digit_char n \<noteq> CHR ''0''" by auto
    then show ?thesis using True by (simp add: str_nat.simps [of n])
  next
    case False
    then have "0 < n div 10" by simp
    with False "1.IH" show ?thesis
      by (simp add: str_nat.simps [of n] str_nat_nonempty)
  qed
qed

lemma length_str_nat: "n < 1000 \<Longrightarrow> length (str_nat n) \<le> 3"
  by (simp add: str_nat.simps [of n] str_nat.simps [of "n div 10"]
      str_nat.simps [of "n div 10 div 10"])

lemma is_ascii_digits_str_nat: "is_ascii_digits (str_nat n)"
  by (simp add: is_ascii_digits_def str_nat_nonempty list_all_iff str_nat_isdigit)

lemma str_nat_0: "str_nat 0 = ''0''"
  by (simp add: str_nat.simps [of 0] digit_char_def)

lemma str_nat_eq_0: "str_nat n = ''0'' \<Longrightarrow> n = 0"
  using digits_value_str_nat [of n] by (simp add: digits_value_def)

lemma parse_octet_str_int:
  assumes "0 \<le> b" "b \<le> 255"
  shows "parse_octet (str_int b) = Inr b"
proof -
  have s: "str_int b = str_nat (nat b)" using assms by (simp add: str_int_def)
  have l: "length (str_nat (nat b)) \<le> 3" using assms by (intro length_str_nat) simp
  have z: "\<not> (str_nat (nat b) \<noteq> ''0'' \<and> hd (str_nat (nat b)) = CHR ''0'')"
    using hd_str_nat [of "nat b"] str_nat_0 by (cases "nat b = 0") auto
  show ?thesis
    unfolding s parse_octet_def
    using l z assms
    by (simp add: str_nat_nonempty is_ascii_digits_str_nat int_of_digits_def
        int_max_str_digits_def digits_value_str_nat)
qed

lemma prefix_from_prefix_string_str_nat:
  "p \<le> 32 \<Longrightarrow> prefix_from_prefix_string (str_nat p) = Inr p"
  using length_str_nat [of p]
  by (simp add: prefix_from_prefix_string_def is_ascii_digits_str_nat int_of_digits_def
      int_max_str_digits_def digits_value_str_nat)

lemma isdigit_not_sep: "isdigit c \<Longrightarrow> c \<noteq> CHR ''.'' \<and> c \<noteq> CHR ''/'' \<and> \<not> isspace c"
  by (auto simp: isdigit_def isspace_def Let_def)

section \<open>Splitting and joining\<close>

lemma split_sep_nonempty: "split_sep c s \<noteq> []"
  by (induction s) (auto split: list.splits)

lemma split_sep_no_sep: "c \<notin> set s \<Longrightarrow> split_sep c s = [s]"
  by (induction s) auto

lemma split_sep_append:
  "c \<notin> set s \<Longrightarrow> split_sep c (s @ c # rest) = s # split_sep c rest"
  by (induction s) auto

lemma split_ws_token:
  "\<forall>c \<in> set t. \<not> isspace c \<Longrightarrow> split_ws cur (t @ rest) = split_ws (rev t @ cur) rest"
  by (induction t arbitrary: cur) auto

lemma strip_id:
  assumes "s \<noteq> []" "\<not> isspace (hd s)" "\<not> isspace (last s)"
  shows "strip s = s"
proof -
  have "dropWhile isspace s = s"
    using assms by (cases s) auto
  moreover have "dropWhile isspace (rev s) = rev s"
    using assms by (cases "rev s") (auto simp: hd_rev)
  ultimately show ?thesis by (simp add: strip_def)
qed

lemma strip_token: "t \<noteq> [] \<Longrightarrow> \<forall>c \<in> set t. \<not> isspace c \<Longrightarrow> strip t = t"
  by (rule strip_id) auto

lemma from_bytes_big_packed:
  assumes "0 \<le> a" "a \<le> ALL_ONES"
  shows "from_bytes_big (packed a) = a"
proof -
  define b where "b = a div 256"
  define c where "c = b div 256"
  define d where "d = c div 256"
  have d8: "a div 256 = b" by (simp add: b_def)
  have d16: "a div 65536 = c"
    using zdiv_zmult2_eq [of 256 a 256] by (simp add: b_def c_def)
  have d24: "a div 16777216 = d"
    using zdiv_zmult2_eq [of 65536 a 256] d16 by (simp add: d_def)
  have "d < 256" using assms unfolding d24 [symmetric] by (simp add: ALL_ONES_def)
  moreover have "0 \<le> d" using assms unfolding d24 [symmetric] by simp
  ultimately have dm: "d mod 256 = d" by simp
  have "((d * 256 + c mod 256) * 256 + b mod 256) * 256 + a mod 256 = a"
    unfolding d_def c_def b_def by (simp add: div_mult_mod_eq)
  then show ?thesis
    by (simp add: from_bytes_big_def packed_def d8 d16 d24 dm)
qed

lemma packed_octets: "b \<in> set (packed a) \<Longrightarrow> 0 \<le> b \<and> b \<le> 255"
  by (auto simp: packed_def)

lemma str_int_isdigit: "0 \<le> b \<Longrightarrow> c \<in> set (str_int b) \<Longrightarrow> isdigit c"
  by (simp add: str_int_def str_nat_isdigit)

lemma string_from_ip_int_chars:
  "c \<in> set (string_from_ip_int a) \<Longrightarrow> isdigit c \<or> c = CHR ''.''"
  by (auto simp: string_from_ip_int_def packed_def dest!: str_int_isdigit [rotated])

lemma string_from_ip_int_nonempty: "string_from_ip_int a \<noteq> []"
  by (simp add: string_from_ip_int_def packed_def str_int_def str_nat_nonempty)

lemma split_string_from_ip_int:
  "split_sep CHR ''.'' (string_from_ip_int a) = map str_int (packed a)"
proof -
  have n: "CHR ''.'' \<notin> set (str_int b)" if "b \<in> set (packed a)" for b
    using that str_int_isdigit [of b "CHR ''.''"] isdigit_not_sep [of "CHR ''.''"]
    by (auto dest: packed_octets)
  then show ?thesis
    by (simp add: string_from_ip_int_def packed_def split_sep_append split_sep_no_sep)
qed

lemma map_err_map_inverse:
  "(\<And>x. x \<in> set xs \<Longrightarrow> f (g x) = Inr x) \<Longrightarrow> map_err f (map g xs) = Inr xs"
  by (induction xs) simp_all

lemma length_packed: "length (packed a) = 4"
  by (simp add: packed_def)

lemma ip_int_from_string_roundtrip:
  assumes "0 \<le> a" "a \<le> ALL_ONES"
  shows "ip_int_from_string (string_from_ip_int a) = Inr a"
proof -
  have "map_err parse_octet (map str_int (packed a)) = Inr (packed a)"
    by (rule map_err_map_inverse) (simp add: parse_octet_str_int packed_octets)
  then show ?thesis
    using from_bytes_big_packed [OF assms]
    by (simp add: ip_int_from_string_def string_from_ip_int_nonempty split_string_from_ip_int
        length_packed)
qed

section \<open>Building networks\<close>

lemma div_aligned:
  fixes a :: int
  assumes "j \<le> k"
  shows "(a - a mod 2 ^ j) div 2 ^ k = a div 2 ^ k"
proof -
  have k: "(2::int) ^ k = 2 ^ j * 2 ^ (k - j)"
    using assms by (simp flip: power_add)
  have "a - a mod 2 ^ j = 2 ^ j * (a div 2 ^ j)"
    by (simp add: minus_mod_eq_mult_div)
  then have "(a - a mod 2 ^ j) div 2 ^ k = a div 2 ^ j div 2 ^ (k - j)"
    unfolding k by (simp add: zdiv_zmult2_eq)
  also have "\<dots> = a div 2 ^ k"
    unfolding k by (simp add: zdiv_zmult2_eq)
  finally show ?thesis .
qed

lemma realign:
  fixes a :: int
  assumes "j \<le> k"
  shows "(a - a mod 2 ^ j) - (a - a mod 2 ^ j) mod 2 ^ k = a - a mod 2 ^ k"
  using div_aligned [OF assms, of a] by (simp add: minus_mod_eq_mult_div)

lemma aligned_mod: "(a - a mod 2 ^ k) mod 2 ^ k = (0::int)"
  by (simp add: minus_mod_eq_mult_div)

lemma aligned_bounds:
  fixes a :: int
  assumes "0 \<le> a"
  shows "0 \<le> a - a mod 2 ^ k" and "a - a mod 2 ^ k \<le> a"
proof -
  have "a mod 2 ^ k \<le> a" using assms by (simp add: zmod_le_nonneg_dividend)
  then show "0 \<le> a - a mod 2 ^ k" by simp
  show "a - a mod 2 ^ k \<le> a" by simp
qed

lemma aligned_range:
  fixes a :: int
  assumes "0 \<le> a" "a \<le> ALL_ONES"
  shows "0 \<le> a - a mod 2 ^ k" and "a - a mod 2 ^ k \<le> ALL_ONES"
    and "a - a mod 2 ^ k < 2 ^ 32"
proof -
  show "0 \<le> a - a mod 2 ^ k" by (rule aligned_bounds(1) [OF assms(1)])
  show "a - a mod 2 ^ k \<le> ALL_ONES"
    by (rule order_trans [OF aligned_bounds(2) [OF assms(1)] assms(2)])
  then show "a - a mod 2 ^ k < 2 ^ 32" by (simp add: ALL_ONES_def)
qed

lemma wf_range: "wf_network n \<Longrightarrow> 0 \<le> network_address n \<and> network_address n \<le> ALL_ONES"
  by (simp add: wf_network_def)

lemma wf_mk_net:
  assumes "p \<le> 32" "0 \<le> a" "a < 2 ^ 32" "a mod 2 ^ (32 - p) = 0"
  shows "wf_network (mk_net a p)"
  using assms by (simp add: wf_network_iff mk_net_def ip_int_from_prefix_eq)

lemma wf_eq_mk_net: "wf_network n \<Longrightarrow> n = mk_net (network_address n) (prefixlen n)"
  by (simp add: wf_network_def mk_net_def)

lemma check_netmask: "p \<le> 32 \<Longrightarrow> check_int_address (ip_int_from_prefix p) = Inr (ip_int_from_prefix p)"
  using ip_int_from_prefix_range [of p] by (simp add: check_int_address_def)

lemma make_network_nonstrict:
  assumes "0 \<le> a" "a \<le> ALL_ONES" "p \<le> 32"
  shows "make_network a (ip_int_from_prefix p, p) False = Inr (mk_net (a - a mod 2 ^ (32 - p)) p)"
proof -
  show ?thesis
    using assms aligned_range(1,2) [OF assms(1,2), of "32 - p"]
    by (auto simp: make_network_def Let_def and_netmask check_int_address_def mk_net_def)
qed

lemma make_network_strict:
  assumes "0 \<le> a" "a \<le> ALL_ONES" "p \<le> 32" "a mod 2 ^ (32 - p) = 0"
  shows "make_network a (ip_int_from_prefix p, p) True = Inr (mk_net a p)"
  using assms by (simp add: make_network_def Let_def and_netmask mk_net_def)

lemma make_netmask_str_prefix:
  "p \<le> 32 \<Longrightarrow> make_netmask_str (str_nat p) = Inr (ip_int_from_prefix p, p)"
  by (simp add: make_netmask_str_def prefix_from_prefix_string_str_nat check_netmask)

lemma make_netmask_int_prefix:
  "p \<le> 32 \<Longrightarrow> make_netmask_int (int p) = Inr (ip_int_from_prefix p, p)"
  by (simp add: make_netmask_int_def check_netmask)

lemma slash_notin_address: "CHR ''/'' \<notin> set (string_from_ip_int a)"
  using string_from_ip_int_chars [of "CHR ''/''" a] isdigit_not_sep [of "CHR ''/''"] by auto

lemma slash_notin_str_nat: "CHR ''/'' \<notin> set (str_nat p)"
  using str_nat_isdigit [of "CHR ''/''" p] isdigit_not_sep [of "CHR ''/''"] by auto

lemma IPv4Network_str_cidr:
  assumes "0 \<le> a" "a \<le> ALL_ONES" "p \<le> 32"
  shows "IPv4Network_str (string_from_ip_int a @ ''/'' @ str_nat p) strict =
         make_network a (ip_int_from_prefix p, p) strict"
proof -
  have "split_sep CHR ''/'' (string_from_ip_int a @ ''/'' @ str_nat p) =
        [string_from_ip_int a, str_nat p]"
    by (simp add: split_sep_append split_sep_no_sep slash_notin_address slash_notin_str_nat)
  then show ?thesis
    using assms
    by (simp add: IPv4Network_str_def split_optional_netmask_def IPv4Address_str_def
        slash_notin_address ip_int_from_string_roundtrip make_netmask_str_prefix)
qed

lemma supernet_wf:
  assumes "wf_network n" "0 < prefixlen n"
  shows "supernet n =
         Inr (mk_net (network_address n - network_address n mod 2 ^ (33 - prefixlen n))
                     (prefixlen n - 1))"
proof -
  let ?a = "network_address n" and ?p = "prefixlen n"
  have w: "?p \<le> 32" "0 \<le> ?a" "?a < 2 ^ 32" "netmask n = 2 ^ 32 - 2 ^ (32 - ?p)"
    using assms(1) by (simp_all add: wf_network_iff)
  have "push_bit 1 (netmask n) = 2 ^ 33 - 2 ^ (33 - ?p)"
  proof -
    have "Suc (32 - ?p) = 33 - ?p" using w(1) by simp
    then have "(2::int) * 2 ^ (32 - ?p) = 2 ^ (33 - ?p)"
      by (metis power_Suc)
    then show ?thesis by (simp add: w(4) push_bit_eq_mult algebra_simps)
  qed
  moreover have "?a < 2 ^ 33" using w(3) by simp
  ultimately have a: "?a AND push_bit 1 (netmask n) = ?a - ?a mod 2 ^ (33 - ?p)"
    using and_pow_diff [of ?a 33 "33 - ?p"] w(2) by simp
  let ?b = "?a - ?a mod 2 ^ (33 - ?p)"
  have r: "0 \<le> ?a" "?a \<le> ALL_ONES" using assms(1) by (simp_all add: wf_range)
  have b: "0 \<le> ?b" "?b \<le> ALL_ONES"
    by (rule aligned_range [OF r])+
  have i: "int ?p - 1 = int (?p - 1)" using assms(2) by simp
  have e: "32 - (?p - 1) = 33 - ?p" "32 - (?p - Suc 0) = 33 - ?p" using assms(2) w(1) by simp_all
  have "make_network ?b (ip_int_from_prefix (?p - 1), ?p - 1) True = Inr (mk_net ?b (?p - 1))"
    using b w(1) by (intro make_network_strict) (simp_all add: e aligned_mod)
  then show ?thesis
    unfolding supernet_def a Let_def
    using assms(2) b w(1)
    by (simp add: IPv4Network_tuple_def check_int_address_def i
        make_netmask_int_prefix del: of_nat_diff)
qed

lemma get_supernet_to_prefix_wf:
  assumes "wf_network n" "t \<le> prefixlen n"
  shows "get_supernet_to_prefix n t =
         mk_net (network_address n - network_address n mod 2 ^ (32 - t)) t"
  using assms
proof (induction "prefixlen n - t" arbitrary: n)
  case 0
  then have "prefixlen n = t" by simp
  moreover from this have "network_address n mod 2 ^ (32 - t) = 0"
    using "0.prems"(1) by (simp add: wf_network_iff)
  ultimately show ?case
    using wf_eq_mk_net [OF "0.prems"(1)]
    by (simp add: get_supernet_to_prefix.simps [of n t])
next
  case (Suc d)
  let ?a = "network_address n" and ?p = "prefixlen n"
  let ?m = "mk_net (?a - ?a mod 2 ^ (33 - ?p)) (?p - 1)"
  have p: "t < ?p" "0 < ?p" "?p \<le> 32"
    using Suc.hyps(2) Suc.prems(1) by (simp_all add: wf_network_iff)
  have s: "supernet n = Inr ?m"
    using Suc.prems(1) p(2) by (rule supernet_wf)
  have a: "0 \<le> ?a" "?a \<le> ALL_ONES" using Suc.prems(1) by (simp_all add: wf_range)
  have e: "32 - (?p - 1) = 33 - ?p" "32 - (?p - Suc 0) = 33 - ?p" using p by simp_all
  have w: "wf_network ?m"
    using p aligned_range [OF a, of "33 - ?p"]
    by (intro wf_mk_net) (simp_all add: e aligned_mod)
  have "get_supernet_to_prefix ?m t =
        mk_net (network_address ?m - network_address ?m mod 2 ^ (32 - t)) t"
    using Suc.hyps(2) p w by (intro Suc.hyps(1)) (simp_all add: mk_net_def)
  moreover have "33 - ?p \<le> 32 - t" using p by simp
  ultimately have "get_supernet_to_prefix ?m t = mk_net (?a - ?a mod 2 ^ (32 - t)) t"
    by (simp add: mk_net_def realign)
  then show ?case
    using p(1) s by (simp add: get_supernet_to_prefix.simps [of n t])
qed

section \<open>The parent network\<close>

lemma packed_first_octet:
  assumes "0 \<le> f" "f < 256"
  shows "packed (f * 2 ^ 24) = [f, 0, 0, 0]"
proof -
  have "f * 16777216 div 65536 = f * 256" "f * 16777216 div 256 = f * 65536" by simp_all
  then show ?thesis using assms by (simp add: packed_def)
qed

lemma first_octet_string:
  assumes "0 \<le> f" "f < 256"
  shows "str_int f @ ''.0.0.0/8'' = string_from_ip_int (f * 2 ^ 24) @ ''/'' @ str_nat 8"
proof -
  have "str_nat 8 = ''8''" by (simp add: str_nat.simps [of 8] digit_char_def)
  moreover have "str_int 0 = ''0''" by (simp add: str_int_def str_nat_0)
  ultimately show ?thesis
    unfolding string_from_ip_int_def packed_first_octet [OF assms] by simp
qed

lemma packed_hd:
  assumes "0 \<le> a" "a \<le> ALL_ONES"
  shows "packed a ! 0 = a div 2 ^ 24" and "0 \<le> a div 2 ^ 24" and "a div 2 ^ 24 < 256"
  using assms by (simp_all add: packed_def ALL_ONES_def)

lemma get_parent_network_wf:
  assumes "wf_network n"
  shows "get_parent_network n =
         Inr (mk_net (network_address n - network_address n mod 2 ^ (32 - parent_prefix (prefixlen n)))
                     (parent_prefix (prefixlen n)))"
proof (cases "prefixlen n > 8")
  case True
  then show ?thesis
    using assms
    by (simp add: get_parent_network_def parent_prefix_def get_supernet_to_prefix_wf)
next
  case False
  let ?a = "network_address n"
  let ?f = "?a div 2 ^ 24"
  have r: "0 \<le> ?a" "?a \<le> ALL_ONES" using assms by (simp_all add: wf_range)
  note f = packed_hd [OF r]
  have b: "?f * 2 ^ 24 = ?a - ?a mod 2 ^ 24"
    by (simp add: minus_mod_eq_div_mult)
  have br: "0 \<le> ?f * 2 ^ 24" "?f * 2 ^ 24 \<le> ALL_ONES"
    unfolding b by (rule aligned_range [OF r])+
  have "IPv4Network_str (str_int ?f @ ''.0.0.0/8'') True =
        make_network (?f * 2 ^ 24) (ip_int_from_prefix 8, 8) True"
    unfolding first_octet_string [OF f(2,3)]
    by (rule IPv4Network_str_cidr [OF br]) simp
  also have "\<dots> = Inr (mk_net (?f * 2 ^ 24) 8)"
    by (rule make_network_strict [OF br]) simp_all
  finally show ?thesis
    using False unfolding b
    by (simp add: get_parent_network_def f(1) parent_prefix_def)
qed

section \<open>The formatted record\<close>

lemma get_host_range_Inr:
  assumes "wf_network n"
  shows "get_host_range n =
     Inr (if prefixlen n \<le> 30 then (network_address n + 1, broadcast_address n - 1)
          else (network_address n, network_address n))"
  using get_host_range_wf [OF assms] by simp

lemma check_wildcard:
  assumes "wf_network n"
  shows "check_int_address (netmask n XOR 0xFFFFFFFF) = Inr (hostmask n)"
proof -
  have "(0xFFFFFFFF :: int) = ALL_ONES" by (simp add: ALL_ONES_def)
  moreover have "0 \<le> hostmask n" "hostmask n \<le> ALL_ONES"
  proof -
    have "(1::int) \<le> 2 ^ (32 - prefixlen n)" by simp
    then show "0 \<le> hostmask n" using assms by (simp add: wf_hostmask)
    have "(2::int) ^ (32 - prefixlen n) \<le> 2 ^ 32"
      by (rule power_increasing) simp_all
    then show "hostmask n \<le> ALL_ONES" using assms by (simp add: wf_hostmask ALL_ONES_def)
  qed
  ultimately show ?thesis
    by (simp only: hostmask_def [symmetric] check_int_address_def) simp
qed

lemma parent_prefix_le: "parent_prefix p \<le> 32"
  by (simp add: parent_prefix_def)

lemma wf_parent:
  assumes "wf_network n" "t \<le> 32"
  shows "wf_network (mk_net (network_address n - network_address n mod 2 ^ (32 - t)) t)"
  using assms(2) aligned_range [of "network_address n" "32 - t"] wf_range [OF assms(1)]
  by (intro wf_mk_net) (simp_all add: aligned_mod)

lemma format_ipcalc_wf:
  fixes req :: "string option"
  assumes "wf_network net" and "get_parent_network net = Inr parent"
  defines "w \<equiv> subnet_window net parent req"
  defines "hr \<equiv> (if prefixlen net \<le> 30
                   then (network_address net + 1, broadcast_address net - 1)
                   else (network_address net, network_address net))"
  shows "\<exists>r. format_ipcalc (Some net) req = Inr (Some r) \<and>
     network r = string_from_ip_int (network_address net) \<and>
     host_min r = string_from_ip_int (fst hr) \<and>
     host_max r = string_from_ip_int (snd hr) \<and>
     broadcast r = string_from_ip_int (broadcast_address net) \<and>
     hosts_usable r = format_thousands (max 0 (num_addresses net - 2)) \<and>
     ip_class r = (let first_octet = packed (network_address net) ! 0
                   in if first_octet \<le> 127 then ''A''
                      else if first_octet \<le> 191 then ''B''
                      else if first_octet \<le> 223 then ''C''
                      else if first_octet \<le> 239 then ''D'' else ''E'') \<and>
     ip_type r = (if is_private net then ''Private'' else ''Public'') \<and>
     in_addr r = join ''.'' (map str_int (rev (packed (network_address net)))) @ ''.in-addr.arpa'' \<and>
     all_nets r =
       (if \<not> w_show_subnet_list w then
          [\<lparr>e_network = string_from_ip_int (network_address net),
            e_range = string_from_ip_int (fst hr) @ '' - '' @ string_from_ip_int (snd hr),
            e_broadcast = string_from_ip_int (broadcast_address net),
            is_current = True, e_index = 0, e_page = 1\<rparr>]
        else w_all_nets w) \<and>
     show_subnet_list r = w_show_subnet_list w \<and>
     items_per_page r = 20 \<and>
     total_pages r = w_total_pages w \<and>
     current_page r = w_current_page w \<and>
     total_subnets r = (if w_show_subnet_list w then w_total_subnets w else 1) \<and>
     window_start_page r = (if w_show_subnet_list w then w_start_page w else 1) \<and>
     window_end_page r = (if w_show_subnet_list w then w_end_page w else 1) \<and>
     current_index r = (if w_show_subnet_list w then w_current_index w else 0)"
  unfolding format_ipcalc_def w_def hr_def
  by (simp add: get_host_range_Inr [OF assms(1)] check_wildcard [OF assms(1)] assms(2) Let_def
      ITEMS_PER_PAGE_def)

section \<open>The window of siblings\<close>

lemma map_err_Inr:
  "(\<And>x. x \<in> set xs \<Longrightarrow> f x = Inr (g x)) \<Longrightarrow> map_err f xs = Inr (map g xs)"
  by (induction xs) simp_all

lemma sibling_bounds:
  assumes "wf_network net" "wf_network parent" "prefixlen parent < prefixlen net"
    and "0 \<le> idx" "idx < 2 ^ (prefixlen net - prefixlen parent)"
  defines "ni \<equiv> network_address parent + idx * 2 ^ (32 - prefixlen net)"
  shows "0 \<le> ni" and "ni + 2 ^ (32 - prefixlen net) \<le> network_address parent + 2 ^ (32 - prefixlen parent)"
    and "ni \<le> ALL_ONES" and "ni mod 2 ^ (32 - prefixlen net) = 0"
proof -
  let ?p = "prefixlen net" and ?pp = "prefixlen parent" and ?pa = "network_address parent"
  let ?size = "(2::int) ^ (32 - ?p)"
  have p: "?p \<le> 32" using assms(1) by (simp add: wf_network_iff)
  have pa: "0 \<le> ?pa" "?pa < 2 ^ 32" "?pa mod 2 ^ (32 - ?pp) = 0"
    using assms(2) by (simp_all add: wf_network_iff)
  have e: "(2::int) ^ (32 - ?pp) = 2 ^ (?p - ?pp) * ?size"
    using p assms(3) by (simp flip: power_add)
  show "0 \<le> ni" using pa(1) assms(4) by (simp add: ni_def)
  have "idx + 1 \<le> 2 ^ (?p - ?pp)" using assms(5) by simp
  then have "(idx + 1) * ?size \<le> 2 ^ (?p - ?pp) * ?size"
    by (rule mult_right_mono) simp
  then show top: "ni + ?size \<le> ?pa + 2 ^ (32 - ?pp)"
    unfolding e ni_def by (simp add: algebra_simps)
  have t: "?pa + 2 ^ (32 - ?pp) \<le> 2 ^ 32"
    using pa by (intro aligned_top) simp_all
  have s1: "1 \<le> ?size" by simp
  show "ni \<le> ALL_ONES" unfolding ALL_ONES_def using top t s1 by linarith
  have "?size dvd ?pa"
  proof -
    have "2 ^ (32 - ?pp) dvd ?pa" using pa(3) by (simp add: mod_eq_0_iff_dvd)
    moreover have "?size dvd 2 ^ (32 - ?pp)" unfolding e by simp
    ultimately show ?thesis by (rule dvd_trans [rotated])
  qed
  then show "ni mod ?size = 0" by (simp add: ni_def mod_eq_0_iff_dvd)
qed

lemma sibling_entry_wf:
  assumes "wf_network net" "wf_network parent" "prefixlen parent < prefixlen net"
    and "0 \<le> idx" "idx < 2 ^ (prefixlen net - prefixlen parent)"
  shows "sibling_entry net parent (2 ^ (32 - prefixlen net)) idx = Inr (spec_entry net parent idx)"
proof -
  let ?p = "prefixlen net"
  define ni where "ni = network_address parent + idx * 2 ^ (32 - ?p)"
  note b = sibling_bounds [OF assms, folded ni_def]
  have p: "?p \<le> 32" and m: "netmask net = ip_int_from_prefix ?p"
    using assms(1) by (simp_all add: wf_network_def)
  have c: "check_int_address ni = Inr ni"
    using b by (simp add: check_int_address_def)
  have n: "IPv4Network_str (string_from_ip_int ni @ ''/'' @ str_nat ?p) False = Inr (mk_net ni ?p)"
    using IPv4Network_str_cidr [OF b(1,3) p, of False] make_network_nonstrict [OF b(1,3) p] b(4)
    by simp
  have w: "wf_network (mk_net ni ?p)"
    using b p by (intro wf_mk_net) (simp_all add: ALL_ONES_def)
  have h: "get_host_range (mk_net ni ?p) =
     Inr (if num_addresses (mk_net ni ?p) > 2
          then (network_address (mk_net ni ?p) + 1, broadcast_address (mk_net ni ?p) - 1)
          else (network_address (mk_net ni ?p), network_address (mk_net ni ?p)))"
    using get_host_range_Inr [OF w] num_addresses_gt2 [OF w] by simp
  have q: "network_eq (mk_net ni ?p) net \<longleftrightarrow> ni = network_address net"
    by (simp add: network_eq_def mk_net_def m)
  have "sibling_entry net parent (2 ^ (32 - ?p)) idx =
        Inr \<lparr>e_network = string_from_ip_int (network_address (mk_net ni ?p)),
             e_range =
               string_from_ip_int (if num_addresses (mk_net ni ?p) > 2
                                   then network_address (mk_net ni ?p) + 1
                                   else network_address (mk_net ni ?p)) @ '' - '' @
               string_from_ip_int (if num_addresses (mk_net ni ?p) > 2
                                   then broadcast_address (mk_net ni ?p) - 1
                                   else network_address (mk_net ni ?p)),
             e_broadcast = string_from_ip_int (broadcast_address (mk_net ni ?p)),
             is_current = (ni = network_address net),
             e_index = idx, e_page = idx div 20 + 1\<rparr>"
    by (simp only: sibling_entry_def Let_def ni_def [symmetric] c sum.case n h q
        ITEMS_PER_PAGE_def) simp
  then show ?thesis
    by (simp add: spec_entry_def Let_def ni_def [symmetric] mk_net_def)
qed

lemma py_int_empty: "py_int [] = Inl ValueError"
  by (simp add: py_int_def strip_def)

lemma subnet_window_wf:
  fixes req :: "string option"
  assumes "wf_network net" "wf_network parent" "prefixlen parent < prefixlen net"
  defines "nsub \<equiv> (2::int) ^ (prefixlen net - prefixlen parent)"
  defines "pages \<equiv> max 1 ((nsub + 19) div 20)"
  defines "cur \<equiv> (network_address net - network_address parent) div 2 ^ (32 - prefixlen net)"
  defines "center \<equiv> (case req of None \<Rightarrow> cur div 20 + 1
              | Some s \<Rightarrow> (case py_int s of Inr i \<Rightarrow> max 1 (min i pages)
                                           | Inl e \<Rightarrow> cur div 20 + 1))"
  shows "subnet_window net parent req =
     \<lparr>w_show_subnet_list = True,
      w_all_nets = map (spec_entry net parent)
                     [(max 1 (center - 10) - 1) * 20 .. min nsub (min pages (center + 10) * 20) - 1],
      w_current_index = cur, w_current_page = center,
      w_start_page = max 1 (center - 10), w_end_page = min pages (center + 10),
      w_total_subnets = nsub, w_total_pages = pages\<rparr>"
proof -
  let ?lo = "(max 1 (center - 10) - 1) * 20" and ?hi = "min nsub (min pages (center + 10) * 20)"
  have d: "nat (int (prefixlen net) - int (prefixlen parent)) = prefixlen net - prefixlen parent"
    by simp
  have m: "map_err (sibling_entry net parent (2 ^ (32 - prefixlen net))) [?lo..?hi - 1] =
        Inr (map (spec_entry net parent) [?lo..?hi - 1])"
  proof (rule map_err_Inr)
    fix x assume "x \<in> set [?lo..?hi - 1]"
    then have x: "?lo \<le> x" "x < ?hi" by simp_all
    have "0 \<le> ?lo" by simp
    then have "0 \<le> x" using x(1) by (rule order_trans)
    moreover have "x < nsub" using x(2) by simp
    ultimately have "0 \<le> x" "x < nsub" .
    then show "sibling_entry net parent (2 ^ (32 - prefixlen net)) x = Inr (spec_entry net parent x)"
      unfolding nsub_def by (intro sibling_entry_wf assms(1-3))
  qed
  have c: "(case req of None \<Rightarrow> cur div 20 + 1
            | Some page \<Rightarrow> if page \<noteq> [] then
                 (case py_int page of Inr i \<Rightarrow> max 1 (min i pages) | Inl e \<Rightarrow> cur div 20 + 1)
               else cur div 20 + 1) = center"
    by (auto simp: center_def py_int_empty split: option.splits)
  have "subnet_window net parent req =
     (case map_err (sibling_entry net parent (2 ^ (32 - prefixlen net))) [?lo..?hi - 1] of
        Inr nets \<Rightarrow>
          \<lparr>w_show_subnet_list = True, w_all_nets = nets,
           w_current_index = cur, w_current_page = center,
           w_start_page = max 1 (center - 10), w_end_page = min pages (center + 10),
           w_total_subnets = nsub, w_total_pages = pages\<rparr>
      | Inl e \<Rightarrow>
          \<lparr>w_show_subnet_list = False, w_all_nets = [],
           w_current_index = cur, w_current_page = center,
           w_start_page = max 1 (center - 10), w_end_page = min pages (center + 10),
           w_total_subnets = nsub, w_total_pages = pages\<rparr>)"
  proof -
    have p: "((nsub + 20 - 1) div 20) = (nsub + 19) div 20" by simp
    have n: "0 < int (prefixlen net) - int (prefixlen parent)" using assms(3) by simp
    show ?thesis
      by (simp only: subnet_window_def Let_def ITEMS_PER_PAGE_def PAGES_BEFORE_AFTER_def
          assms(3) if_True n d nsub_def [symmetric] p pages_def [symmetric]
          cur_def [symmetric] c)
  qed
  then show ?thesis by (simp only: m sum.case)
qed

section \<open>The claims\<close>

lemma mk_net_sel [simp]:
  "network_address (mk_net a p) = a" "prefixlen (mk_net a p) = p"
  "netmask (mk_net a p) = ip_int_from_prefix p"
  by (simp_all add: mk_net_def)

lemma widened_supernet:
  assumes "wf_network n" "t \<le> prefixlen n"
  shows "supernet_at (mk_net (network_address n - network_address n mod 2 ^ (32 - t)) t) n t"
proof -
  let ?a = "network_address n" and ?p = "prefixlen n" and ?k = "32 - t"
  have w: "?p \<le> 32" "0 \<le> ?a" "?a mod 2 ^ (32 - ?p) = 0"
    using assms(1) by (simp_all add: wf_network_iff)
  have t: "t \<le> 32" using assms(2) w(1) by simp
  have wp: "wf_network (mk_net (?a - ?a mod 2 ^ ?k) t)"
    using assms(1) t by (rule wf_parent)
  have "(2::int) ^ (32 - ?p) dvd 2 ^ ?k"
    using assms(2) by (intro le_imp_power_dvd) simp
  moreover have "2 ^ (32 - ?p) dvd ?a" using w(3) by (simp add: mod_eq_0_iff_dvd)
  ultimately have "2 ^ (32 - ?p) dvd ?a mod 2 ^ ?k"
    by (simp add: dvd_mod)
  then have "?a mod 2 ^ ?k mod 2 ^ (32 - ?p) = 0" by (simp add: mod_eq_0_iff_dvd)
  then have "?a mod 2 ^ ?k + 2 ^ (32 - ?p) \<le> 2 ^ ?k"
    using assms(2) by (intro aligned_top) simp_all
  then have "broadcast_address n \<le> broadcast_address (mk_net (?a - ?a mod 2 ^ ?k) t)"
    by (simp add: wf_broadcast [OF assms(1)] wf_broadcast [OF wp])
  then show ?thesis
    using wp by (simp add: supernet_at_def)
qed

lemma parent_masked:
  assumes "wf_network n" "t \<le> 32"
  shows "network_address n - network_address n mod 2 ^ (32 - t) =
         network_address n AND ip_int_from_prefix t"
  using and_netmask [of "network_address n" t] wf_range [OF assms(1)] assms(2) by simp

text \<open>
  C1. For a network the library can build, \<^verbatim>\<open>get_parent_network\<close> returns the /24
  supernet when the prefix is longer than 24, else the /16 supernet when it is longer than
  16, else the /8 supernet when it is longer than 8, and else the network
  \<^verbatim>\<open>{first}.0.0.0/8\<close> of the first byte of the base address, also when the network is
  wider than /8.
\<close>

theorem get_parent_network_rule:
  assumes "wf_network net"
  shows "\<exists>parent. get_parent_network net = Inr parent \<and>
     (24 < prefixlen net \<longrightarrow>
        supernet_at parent net 24 \<and>
        network_address parent = network_address net AND ip_int_from_prefix 24) \<and>
     (16 < prefixlen net \<and> prefixlen net \<le> 24 \<longrightarrow>
        supernet_at parent net 16 \<and>
        network_address parent = network_address net AND ip_int_from_prefix 16) \<and>
     (8 < prefixlen net \<and> prefixlen net \<le> 16 \<longrightarrow>
        supernet_at parent net 8 \<and>
        network_address parent = network_address net AND ip_int_from_prefix 8) \<and>
     (prefixlen net \<le> 8 \<longrightarrow>
        parent = mk_net (packed (network_address net) ! 0 * 2 ^ 24) 8 \<and>
        str_network parent = str_int (packed (network_address net) ! 0) @ ''.0.0.0/8'')"
proof -
  let ?a = "network_address net" and ?p = "prefixlen net"
  let ?t = "parent_prefix ?p"
  let ?parent = "mk_net (?a - ?a mod 2 ^ (32 - ?t)) ?t"
  have g: "get_parent_network net = Inr ?parent"
    using assms by (rule get_parent_network_wf)
  have s: "supernet_at ?parent net ?t" if "8 < ?p"
    using assms that by (intro widened_supernet) (simp_all add: parent_prefix_def)
  have m: "network_address ?parent = ?a AND ip_int_from_prefix ?t"
    using parent_masked [OF assms parent_prefix_le] by simp
  have l: "?parent = mk_net (packed ?a ! 0 * 2 ^ 24) 8 \<and>
           str_network ?parent = str_int (packed ?a ! 0) @ ''.0.0.0/8''" if "?p \<le> 8"
  proof -
    note f = packed_hd [OF wf_range [OF assms, THEN conjunct1] wf_range [OF assms, THEN conjunct2]]
    have t: "?t = 8" using that by (simp add: parent_prefix_def)
    have b: "?a - ?a mod 2 ^ 24 = packed ?a ! 0 * 2 ^ 24"
      unfolding f(1) by (simp add: minus_mod_eq_div_mult)
    have "32 - ?t = 24" using t by simp
    then have e: "?parent = mk_net (packed ?a ! 0 * 2 ^ 24) 8"
      using b t by simp
    show ?thesis
      unfolding e using first_octet_string [OF f(2,3)]
      by (simp add: str_network_def f(1))
  qed
  show ?thesis
    using g s m l by (auto simp: parent_prefix_def)
qed

theorem get_parent_network_rule_witness:
  "wf_network (mk_net 168430080 30) \<and> wf_network (mk_net 168427520 19) \<and>
   wf_network (mk_net 168296448 15) \<and> wf_network (mk_net 268435456 4) \<and>
   (\<exists>parent. get_parent_network (mk_net 168430080 30) = Inr parent \<and>
      supernet_at parent (mk_net 168430080 30) 24 \<and> network_address parent = 168430080) \<and>
   (\<exists>parent. get_parent_network (mk_net 168427520 19) = Inr parent \<and>
      supernet_at parent (mk_net 168427520 19) 16 \<and> network_address parent = 168427520) \<and>
   (\<exists>parent. get_parent_network (mk_net 168296448 15) = Inr parent \<and>
      supernet_at parent (mk_net 168296448 15) 8 \<and> network_address parent = 167772160) \<and>
   (\<exists>parent. get_parent_network (mk_net 268435456 4) = Inr parent \<and>
      parent = mk_net 268435456 8 \<and> str_network parent = ''16.0.0.0/8'')"
proof -
  have w: "wf_network (mk_net 168430080 30)" "wf_network (mk_net 168427520 19)"
    "wf_network (mk_net 168296448 15)" "wf_network (mk_net 268435456 4)"
    by (rule wf_mk_net; simp)+
  have a: "(168430080::int) AND ip_int_from_prefix 24 = 168430080"
    "(168427520::int) AND ip_int_from_prefix 16 = 168427520"
    "(168296448::int) AND ip_int_from_prefix 8 = 167772160"
    by (simp_all add: ip_int_from_prefix_eq and_netmask ALL_ONES_def)
  have s: "str_int 16 = ''16''"
    by code_simp
  show ?thesis
    using w get_parent_network_rule [OF w(1)] get_parent_network_rule [OF w(2)]
      get_parent_network_rule [OF w(3)] get_parent_network_rule [OF w(4)]
    by (simp add: a packed_def s)
qed

text \<open>
  C2 as stated: a network whose prefix length is 8, 16 or 24 is its own parent. The tests
  of \<^verbatim>\<open>get_parent_network\<close> are strict, so a /24 is widened to its /16: the parent of
  192.168.1.0/24 is 192.168.0.0/16.
\<close>

theorem parent_of_boundary_counterexample:
  "wf_network (mk_net 3232235776 24) \<and> prefixlen (mk_net 3232235776 24) = 24 \<and>
   get_parent_network (mk_net 3232235776 24) = Inr (mk_net 3232235520 16) \<and>
   get_parent_network (mk_net 3232235776 24) \<noteq> Inr (mk_net 3232235776 24)"
proof -
  have w: "wf_network (mk_net 3232235776 24)"
    by (rule wf_mk_net) simp_all
  have "get_parent_network (mk_net 3232235776 24) = Inr (mk_net 3232235520 16)"
    unfolding get_parent_network_wf [OF w] by (simp add: parent_prefix_def)
  then show ?thesis using w by (simp add: mk_net_def)
qed

text \<open>
  C2 as amended: a network is its own parent exactly when its prefix length is 8; a
  network of prefix length 24 has the /16 that contains it as its parent, and a network of
  prefix length 16 the /8 that contains it.
\<close>

theorem parent_of_boundary:
  assumes "wf_network net"
  shows "(get_parent_network net = Inr net \<longleftrightarrow> prefixlen net = 8) \<and>
     (prefixlen net = 24 \<longrightarrow>
        get_parent_network net =
          Inr (mk_net (network_address net AND ip_int_from_prefix 16) 16)) \<and>
     (prefixlen net = 16 \<longrightarrow>
        get_parent_network net =
          Inr (mk_net (network_address net AND ip_int_from_prefix 8) 8))"
proof -
  let ?a = "network_address net" and ?p = "prefixlen net"
  let ?t = "parent_prefix ?p"
  have g: "get_parent_network net = Inr (mk_net (?a AND ip_int_from_prefix ?t) ?t)"
    using get_parent_network_wf [OF assms] parent_masked [OF assms parent_prefix_le]
    by simp
  have "get_parent_network net = Inr net \<longleftrightarrow> ?p = 8"
  proof
    assume "get_parent_network net = Inr net"
    then have "?t = ?p" unfolding g by (metis mk_net_sel(2) sum.inject(2))
    then show "?p = 8" by (simp add: parent_prefix_def split: if_splits)
  next
    assume p: "?p = 8"
    then have "?t = 8" by (simp add: parent_prefix_def)
    moreover have "?a AND ip_int_from_prefix 8 = ?a"
      using assms p by (auto simp: wf_network_def)
    ultimately show "get_parent_network net = Inr net"
      unfolding g using wf_eq_mk_net [OF assms] p by simp
  qed
  then show ?thesis using g by (simp add: parent_prefix_def)
qed

theorem parent_of_boundary_witness:
  "wf_network (mk_net 167772160 8) \<and> wf_network (mk_net 3232235776 24) \<and>
   wf_network (mk_net 3232235520 16) \<and>
   get_parent_network (mk_net 167772160 8) = Inr (mk_net 167772160 8) \<and>
   get_parent_network (mk_net 3232235776 24) = Inr (mk_net 3232235520 16) \<and>
   get_parent_network (mk_net 3232235520 16) = Inr (mk_net 3221225472 8)"
proof -
  have w: "wf_network (mk_net 167772160 8)" "wf_network (mk_net 3232235776 24)"
    "wf_network (mk_net 3232235520 16)"
    by (rule wf_mk_net; simp)+
  have a: "(3232235776::int) AND ip_int_from_prefix 16 = 3232235520"
    "(3232235520::int) AND ip_int_from_prefix 8 = 3221225472"
    by (simp_all add: and_netmask ALL_ONES_def)
  show ?thesis
    using w parent_of_boundary [OF w(1)] parent_of_boundary [OF w(2)]
      parent_of_boundary [OF w(3)]
    by (simp add: a)
qed

text \<open>
  C7. The usable host range of a network is \<open>(base + 1, broadcast - 1)\<close> when it has
  more than two addresses, which is when its prefix length is at most 30, and twice the
  base address otherwise; up to prefix length 30 the record reports
  \<open>num_addresses - 2\<close> usable hosts.
\<close>

theorem host_range_and_count:
  assumes "wf_network net"
  shows "get_host_range net =
       Inr (if num_addresses net > 2
            then (network_address net + 1, broadcast_address net - 1)
            else (network_address net, network_address net)) \<and>
     num_addresses net = 2 ^ (32 - prefixlen net) \<and>
     (num_addresses net > 2 \<longleftrightarrow> prefixlen net \<le> 30) \<and>
     (\<exists>r. format_ipcalc (Some net) req = Inr (Some r) \<and>
          (prefixlen net \<le> 30 \<longrightarrow>
             hosts_usable r = format_thousands (num_addresses net - 2) \<and>
             host_min r = string_from_ip_int (network_address net + 1) \<and>
             host_max r = string_from_ip_int (broadcast_address net - 1)) \<and>
          (prefixlen net = 31 \<or> prefixlen net = 32 \<longrightarrow>
             host_min r = string_from_ip_int (network_address net) \<and>
             host_max r = string_from_ip_int (network_address net)))"
proof -
  have h: "get_host_range net =
       Inr (if num_addresses net > 2
            then (network_address net + 1, broadcast_address net - 1)
            else (network_address net, network_address net))"
    using get_host_range_Inr [OF assms] num_addresses_gt2 [OF assms] by simp
  have m: "max 0 (num_addresses net - 2) = num_addresses net - 2" if "prefixlen net \<le> 30"
    using num_addresses_gt2 [OF assms] that by simp
  from format_ipcalc_wf [OF assms get_parent_network_wf [OF assms], of req]
  obtain r where r: "format_ipcalc (Some net) req = Inr (Some r)"
    "host_min r = string_from_ip_int (fst (if prefixlen net \<le> 30
                   then (network_address net + 1, broadcast_address net - 1)
                   else (network_address net, network_address net)))"
    "host_max r = string_from_ip_int (snd (if prefixlen net \<le> 30
                   then (network_address net + 1, broadcast_address net - 1)
                   else (network_address net, network_address net)))"
    "hosts_usable r = format_thousands (max 0 (num_addresses net - 2))"
    by auto
  show ?thesis
    using h wf_num_addresses [OF assms] num_addresses_gt2 [OF assms] r m
    by auto
qed

theorem host_range_and_count_witness:
  "wf_network (mk_net 3232235776 24) \<and>
   get_host_range (mk_net 3232235776 24) = Inr (3232235777, 3232236030) \<and>
   num_addresses (mk_net 3232235776 24) = 256 \<and>
   (\<exists>r. format_ipcalc (Some (mk_net 3232235776 24)) None = Inr (Some r) \<and>
        hosts_usable r = ''254'')"
proof -
  have w: "wf_network (mk_net 3232235776 24)"
    by (rule wf_mk_net) simp_all
  have f: "format_thousands 254 = ''254''" by code_simp
  show ?thesis
    using w host_range_and_count [OF w, of None]
    by (auto simp: wf_broadcast [OF w] f)
qed

section \<open>Pages\<close>

lemma parent_facts:
  assumes "wf_network net" "get_parent_network net = Inr parent"
  shows "wf_network parent" and "prefixlen parent = parent_prefix (prefixlen net)"
    and "prefixlen parent \<le> prefixlen net \<Longrightarrow> supernet_at parent net (prefixlen parent)"
proof -
  let ?t = "parent_prefix (prefixlen net)"
  have p: "parent = mk_net (network_address net - network_address net mod 2 ^ (32 - ?t)) ?t"
    using get_parent_network_wf [OF assms(1)] assms(2) by simp
  show "wf_network parent"
    unfolding p using assms(1) parent_prefix_le by (rule wf_parent)
  show "prefixlen parent = ?t" unfolding p by simp
  show "supernet_at parent net (prefixlen parent)" if "prefixlen parent \<le> prefixlen net"
    using that widened_supernet [OF assms(1), of ?t] unfolding p by simp
qed

lemma parent_wider_iff:
  assumes "wf_network net" "get_parent_network net = Inr parent"
  shows "prefixlen parent < prefixlen net \<longleftrightarrow> 8 < prefixlen net"
  using parent_facts(2) [OF assms] by (auto simp: parent_prefix_def)

lemma ceiling_div_20: "\<lceil>real_of_int n / 20\<rceil> = (n + 19) div 20"
proof -
  have "\<lceil>real_of_int n / real_of_int 20\<rceil> = - (- n div 20)"
    by (rule ceiling_divide_eq_div)
  also have "\<dots> = (n + 19) div 20" by presburger
  finally show ?thesis by simp
qed

lemma window_fields:
  fixes req :: "string option"
  assumes "wf_network net" "get_parent_network net = Inr parent"
    and "prefixlen parent < prefixlen net"
  defines "nsub \<equiv> (2::int) ^ (prefixlen net - prefixlen parent)"
  defines "pages \<equiv> max 1 ((nsub + 19) div 20)"
  defines "cur \<equiv> (network_address net - network_address parent) div 2 ^ (32 - prefixlen net)"
  defines "center \<equiv> (case req of None \<Rightarrow> cur div 20 + 1
              | Some s \<Rightarrow> (case py_int s of Inr i \<Rightarrow> max 1 (min i pages)
                                           | Inl e \<Rightarrow> cur div 20 + 1))"
  shows "\<exists>r. format_ipcalc (Some net) req = Inr (Some r) \<and>
     show_subnet_list r \<and>
     all_nets r = map (spec_entry net parent)
                    [(max 1 (center - 10) - 1) * 20 .. min nsub (min pages (center + 10) * 20) - 1] \<and>
     items_per_page r = 20 \<and>
     total_subnets r = nsub \<and> total_pages r = pages \<and>
     current_index r = cur \<and> current_page r = center \<and>
     window_start_page r = max 1 (center - 10) \<and>
     window_end_page r = min pages (center + 10)"
proof -
  have wp: "wf_network parent" using assms(1,2) by (rule parent_facts)
  note w = subnet_window_wf [OF assms(1) wp assms(3), of req,
      folded nsub_def, folded pages_def, folded cur_def, folded center_def]
  from format_ipcalc_wf [OF assms(1,2), of req]
  show ?thesis unfolding w by auto
qed

lemma subnet_window_none:
  "\<not> prefixlen parent < prefixlen net \<Longrightarrow>
   subnet_window net parent req =
     \<lparr>w_show_subnet_list = False, w_all_nets = [],
      w_current_index = 0, w_current_page = 1, w_start_page = 1, w_end_page = 1,
      w_total_subnets = 0, w_total_pages = 1\<rparr>"
  by (simp add: subnet_window_def)

lemma single_fields:
  fixes req :: "string option"
  assumes "wf_network net" "get_parent_network net = Inr parent"
    and "\<not> prefixlen parent < prefixlen net"
  shows "\<exists>r. format_ipcalc (Some net) req = Inr (Some r) \<and>
     \<not> show_subnet_list r \<and>
     all_nets r =
       [\<lparr>e_network = string_from_ip_int (network_address net),
         e_range = host_min r @ '' - '' @ host_max r,
         e_broadcast = string_from_ip_int (broadcast_address net),
         is_current = True, e_index = 0, e_page = 1\<rparr>] \<and>
     items_per_page r = 20 \<and>
     total_subnets r = 1 \<and> total_pages r = 1 \<and>
     current_index r = 0 \<and> current_page r = 1 \<and>
     window_start_page r = 1 \<and> window_end_page r = 1"
  using format_ipcalc_wf [OF assms(1,2), of req]
  unfolding subnet_window_none [OF assms(3)] by auto

lemma concrete_parent:
  assumes "wf_network net"
    and "network_address net - network_address net mod 2 ^ (32 - parent_prefix (prefixlen net)) = b"
    and "parent_prefix (prefixlen net) = t"
  shows "get_parent_network net = Inr (mk_net b t)"
  using get_parent_network_wf [OF assms(1)] assms(2,3) by simp

text \<open>
  C3. When the parent is not strictly wider than the network, the window is the single
  entry of the network itself, marked current, with one sibling and one page. Otherwise the
  number of siblings is \<open>2 ^ (prefixlen net - prefixlen parent)\<close> and the number of pages
  is that number divided by the page size 20, rounded up.
\<close>

theorem pagination_totals:
  assumes "wf_network net" "get_parent_network net = Inr parent"
  shows "\<exists>r. format_ipcalc (Some net) req = Inr (Some r) \<and> items_per_page r = 20 \<and>
     (prefixlen parent \<ge> prefixlen net \<longrightarrow>
        all_nets r =
          [\<lparr>e_network = string_from_ip_int (network_address net),
            e_range = host_min r @ '' - '' @ host_max r,
            e_broadcast = string_from_ip_int (broadcast_address net),
            is_current = True, e_index = 0, e_page = 1\<rparr>] \<and>
        total_subnets r = 1 \<and> total_pages r = 1) \<and>
     (prefixlen parent < prefixlen net \<longrightarrow>
        total_subnets r = 2 ^ (prefixlen net - prefixlen parent) \<and>
        total_pages r = \<lceil>real_of_int (total_subnets r) / 20\<rceil>)"
proof (cases "prefixlen parent < prefixlen net")
  case True
  let ?n = "(2::int) ^ (prefixlen net - prefixlen parent)"
  have "(2::int) ^ 1 \<le> ?n"
    using True by (intro power_increasing) simp_all
  then have "1 \<le> (?n + 19) div 20" by simp
  then have m: "max 1 ((?n + 19) div 20) = \<lceil>real_of_int ?n / 20\<rceil>"
    using ceiling_div_20 [of ?n] by simp
  from window_fields [OF assms True, of req]
  obtain r where r: "format_ipcalc (Some net) req = Inr (Some r)" "items_per_page r = 20"
    "total_subnets r = ?n" "total_pages r = max 1 ((?n + 19) div 20)"
    by blast
  have "total_pages r = \<lceil>real_of_int (total_subnets r) / 20\<rceil>"
    unfolding r(3,4) by (rule m)
  then show ?thesis
    using r(1,2,3) True by (intro exI [of _ r]) simp
next
  case False
  from single_fields [OF assms False, of req]
  obtain r where r: "format_ipcalc (Some net) req = Inr (Some r)" "items_per_page r = 20"
    "all_nets r =
       [\<lparr>e_network = string_from_ip_int (network_address net),
         e_range = host_min r @ '' - '' @ host_max r,
         e_broadcast = string_from_ip_int (broadcast_address net),
         is_current = True, e_index = 0, e_page = 1\<rparr>]"
    "total_subnets r = 1" "total_pages r = 1"
    by blast
  then show ?thesis
    using False by (intro exI [of _ r]) simp
qed

theorem pagination_totals_witness:
  "wf_network (mk_net 167772160 8) \<and>
   get_parent_network (mk_net 167772160 8) = Inr (mk_net 167772160 8) \<and>
   wf_network (mk_net 168430080 30) \<and>
   get_parent_network (mk_net 168430080 30) = Inr (mk_net 168430080 24) \<and>
   (\<exists>r. format_ipcalc (Some (mk_net 167772160 8)) None = Inr (Some r) \<and>
        length (all_nets r) = 1 \<and> total_subnets r = 1 \<and> total_pages r = 1) \<and>
   (\<exists>r. format_ipcalc (Some (mk_net 168430080 30)) None = Inr (Some r) \<and>
        total_subnets r = 64 \<and> total_pages r = 4)"
proof -
  have w: "wf_network (mk_net 167772160 8)" "wf_network (mk_net 168430080 30)"
    by (rule wf_mk_net; simp)+
  have g: "get_parent_network (mk_net 167772160 8) = Inr (mk_net 167772160 8)"
    "get_parent_network (mk_net 168430080 30) = Inr (mk_net 168430080 24)"
    by (rule concrete_parent; simp add: w parent_prefix_def)+
  have c: "\<lceil>(64::real) / 20\<rceil> = 4" by (simp add: ceiling_eq_iff)
  from pagination_totals [OF w(1) g(1), of None]
  have a: "\<exists>r. format_ipcalc (Some (mk_net 167772160 8)) None = Inr (Some r) \<and>
        length (all_nets r) = 1 \<and> total_subnets r = 1 \<and> total_pages r = 1"
    by fastforce
  from pagination_totals [OF w(2) g(2), of None]
  have b: "\<exists>r. format_ipcalc (Some (mk_net 168430080 30)) None = Inr (Some r) \<and>
        total_subnets r = 64 \<and> total_pages r = 4"
    by (fastforce simp: c)
  show ?thesis
    using w g a b by simp
qed









end
